theory Spec2Isabelle
  imports Main "HOL-Library.Word"
begin

unbundle bit_operations_syntax

section \<open>Characters and small string helpers\<close>

text \<open>
  The source works on \<^verbatim>\<open>std::string\<close> and on \<^verbatim>\<open>const char *\<close> spans with a length;
  both are byte strings, modelled as \<^typ>\<open>string\<close> (a list of 8-bit characters).
\<close>

definition dquote :: char where
  "dquote = CHR 0x22"

definition squote :: char where
  "squote = CHR 0x27"

definition backslash :: char where
  "backslash = CHR 0x5C"

definition tab :: char where
  "tab = CHR 0x09"

text \<open>
  \<^verbatim>\<open>std::isspace\<close> on an \<^verbatim>\<open>unsigned char\<close> in the default "C" locale: space, form feed,
  line feed, carriage return, horizontal tab and vertical tab.
\<close>

definition isspace :: "char \<Rightarrow> bool" where
  "isspace c \<longleftrightarrow> c = CHR '' '' \<or> c = CHR 0x09 \<or> c = CHR 0x0A \<or> c = CHR 0x0B
     \<or> c = CHR 0x0C \<or> c = CHR 0x0D"

text \<open>
  \<^verbatim>\<open>trim_copy\<close>: \<^verbatim>\<open>begin\<close> is the first non-space position (the whole string is spaces:
  return the empty string), \<^verbatim>\<open>end\<close> is one past the last non-space position.
\<close>

definition trim_copy :: "string \<Rightarrow> string" where
  "trim_copy str =
     (let from_begin = dropWhile isspace str in
      if from_begin = [] then []
      else rev (dropWhile isspace (rev from_begin)))"

text \<open>\<^verbatim>\<open>img_ascii_tolower\<close> and the lambda of \<^verbatim>\<open>to_lower_copy\<close>: only A-Z are mapped.\<close>

definition img_ascii_tolower :: "char \<Rightarrow> char" where
  "img_ascii_tolower c =
     (if of_char c \<ge> (65::nat) \<and> of_char c \<le> (90::nat)
      then char_of (of_char c - (65::nat) + 97) else c)"

definition to_lower_copy :: "string \<Rightarrow> string" where
  "to_lower_copy str = map img_ascii_tolower str"

text \<open>
  The test of \<^verbatim>\<open>strip_matching_quotes\<close>: at least two characters, and the first and the
  last are both a double quote or both a single quote.
\<close>

definition quoted :: "string \<Rightarrow> bool" where
  "quoted path \<longleftrightarrow> length path \<ge> 2 \<and>
     ((hd path = dquote \<and> last path = dquote) \<or> (hd path = squote \<and> last path = squote))"

text \<open>\<^verbatim>\<open>strip_matching_quotes\<close>: trim, drop one enclosing pair (\<^verbatim>\<open>substr(1, size - 2)\<close>), trim.\<close>

definition strip_matching_quotes :: "string \<Rightarrow> string" where
  "strip_matching_quotes path0 =
     (let path = trim_copy path0;
          path = (if quoted path then take (length path - 2) (drop 1 path) else path)
      in trim_copy path)"

text \<open>\<^verbatim>\<open>add_double_quotes\<close>\<close>

definition add_double_quotes :: "string \<Rightarrow> string" where
  "add_double_quotes path = dquote # path @ [dquote]"


section \<open>The tag-image extractor\<close>

text \<open>
  \<^verbatim>\<open>img_starts_with_icase(text, len, prefix)\<close>: the loop over the characters of the
  (lower-case) prefix; the text is lower-cased, the prefix is compared as it is.
\<close>

fun img_starts_with_icase :: "string \<Rightarrow> string \<Rightarrow> bool" where
  "img_starts_with_icase text [] = True"
| "img_starts_with_icase [] (p # ps) = False"
| "img_starts_with_icase (t # ts) (p # ps) =
     (if img_ascii_tolower t \<noteq> p then False else img_starts_with_icase ts ps)"

text \<open>The test \<^verbatim>\<open>data[j] == ' ' || data[j] == '\t'\<close> of the scanning loops.\<close>

definition is_blank :: "char \<Rightarrow> bool" where
  "is_blank c \<longleftrightarrow> c = CHR '' '' \<or> c = tab"

text \<open>The test \<^verbatim>\<open>data[j] >= '1' && data[j] <= '4'\<close>.\<close>

definition is_layer_digit :: "char \<Rightarrow> bool" where
  "is_layer_digit c \<longleftrightarrow> c = CHR ''1'' \<or> c = CHR ''2'' \<or> c = CHR ''3'' \<or> c = CHR ''4''"

text \<open>
  One iteration of the loop of \<^verbatim>\<open>collect_img_paths_from_span\<close>, up to the construction of
  \<^verbatim>\<open>std::string path(data + start, data + end)\<close>. The argument is the span from position
  \<^verbatim>\<open>i\<close> to \<^verbatim>\<open>len\<close>, so \<^verbatim>\<open>j < len\<close> reads "the rest is not empty"; each
  \<^verbatim>\<open>continue\<close> is \<^const>\<open>None\<close>. The \<^verbatim>\<open>while\<close> loops that advance \<^verbatim>\<open>j\<close> are
  \<^const>\<open>dropWhile\<close> (skipping blanks) and \<^const>\<open>takeWhile\<close> (the characters between
  \<^verbatim>\<open>start\<close> and \<^verbatim>\<open>end\<close>); both stop at the end of the span, as \<^verbatim>\<open>j < len\<close> does.
\<close>

definition img_argument :: "string \<Rightarrow> string option" where
  "img_argument s =
     (case s of
        [] \<Rightarrow> None
      | c # after_slash \<Rightarrow>
          if c \<noteq> backslash then None
          else
            let from_j = (case after_slash of
                            [] \<Rightarrow> after_slash
                          | d # r \<Rightarrow> if is_layer_digit d then r else after_slash)
            in if length from_j \<le> 2 then None
               else if from_j ! 0 \<noteq> CHR ''i'' \<or> from_j ! 1 \<noteq> CHR ''m'' \<or> from_j ! 2 \<noteq> CHR ''g''
               then None
               else
                 (case dropWhile is_blank (drop 3 from_j) of
                    [] \<Rightarrow> None
                  | p # after_paren \<Rightarrow>
                      if p \<noteq> CHR ''('' then None
                      else
                        (case dropWhile is_blank after_paren of
                           [] \<Rightarrow> None
                         | q # after_q \<Rightarrow>
                             let arg = (if q = dquote \<or> q = squote
                                        then takeWhile (\<lambda>c. c \<noteq> q) after_q
                                        else takeWhile (\<lambda>c. c \<noteq> CHR '','' \<and> c \<noteq> CHR '')'')
                                               (q # after_q))
                             in if arg = [] then None else Some arg)))"

text \<open>
  The text that this iteration accepts in front of an argument: the backslash, at most
  one digit from 1 to 4, \<^verbatim>\<open>img\<close>, blanks, the opening parenthesis, blanks. Used to
  state properties of the loop.
\<close>

definition img_tag_head :: "string \<Rightarrow> string \<Rightarrow> string \<Rightarrow> string" where
  "img_tag_head d ws1 ws2 = backslash # d @ ''img'' @ ws1 @ ''('' @ ws2"

definition img_tag_parts :: "string \<Rightarrow> string \<Rightarrow> string \<Rightarrow> bool" where
  "img_tag_parts d ws1 ws2 \<longleftrightarrow>
     length d \<le> 1 \<and> list_all is_layer_digit d \<and> list_all is_blank ws1 \<and> list_all is_blank ws2"

text \<open>
  An unquoted argument as that iteration reads it up to the next comma or closing
  parenthesis: not empty, starting with neither a blank nor a quote.
\<close>

definition plain_argument :: "string \<Rightarrow> bool" where
  "plain_argument arg \<longleftrightarrow>
     arg \<noteq> [] \<and> \<not> is_blank (hd arg) \<and> hd arg \<noteq> dquote \<and> hd arg \<noteq> squote
     \<and> list_all (\<lambda>c. c \<noteq> CHR '','' \<and> c \<noteq> CHR '')'') arg"

text \<open>
  The end of the loop body: strip, then push unless empty or already seen. The state is
  the vector \<^verbatim>\<open>paths\<close> and the set \<^verbatim>\<open>seen\<close>, both passed by pointer in the source.
\<close>

definition push_path :: "string \<Rightarrow> string list \<times> string set \<Rightarrow> string list \<times> string set" where
  "push_path raw st =
     (let path = strip_matching_quotes raw in
      if path \<noteq> [] \<and> path \<notin> snd st then (fst st @ [path], insert path (snd st)) else st)"

text \<open>
  \<^verbatim>\<open>collect_img_paths_from_span\<close>: the loop \<^verbatim>\<open>for (i = 0; i + 4 < len; ++i)\<close>. The first
  argument is the span from \<^verbatim>\<open>i\<close> on; the loop always advances by one character.
\<close>

fun collect_img_paths_from_span ::
  "string \<Rightarrow> string list \<times> string set \<Rightarrow> string list \<times> string set" where
  "collect_img_paths_from_span [] st = st"
| "collect_img_paths_from_span (c # cs) st =
     collect_img_paths_from_span cs
       (if 4 < length (c # cs)
        then (case img_argument (c # cs) of None \<Rightarrow> st | Some raw \<Rightarrow> push_path raw st)
        else st)"

text \<open>
  The stripped arguments that the iterations of that loop obtain, in position order and
  with repetitions. Used to state properties of the loop.
\<close>

fun img_occurrences :: "string \<Rightarrow> string list" where
  "img_occurrences [] = []"
| "img_occurrences (c # cs) =
     (if 4 < length (c # cs)
      then (case img_argument (c # cs) of None \<Rightarrow> [] | Some raw \<Rightarrow> [strip_matching_quotes raw])
      else [])
     @ img_occurrences cs"

text \<open>The local variables of \<^verbatim>\<open>collect_img_paths\<close>.\<close>

record scan_state =
  paths :: "string list"
  seen :: "string set"
  saw_section :: bool
  in_events :: bool

text \<open>
  Removing blanks at both ends of \<^verbatim>\<open>[start, end)\<close>: the two \<^verbatim>\<open>while\<close> loops on
  \<^verbatim>\<open>start\<close> and \<^verbatim>\<open>end\<close> (and on \<^verbatim>\<open>sec_start\<close> and \<^verbatim>\<open>sec_end\<close>).
\<close>

definition trim_blanks :: "string \<Rightarrow> string" where
  "trim_blanks s = rev (dropWhile is_blank (rev (dropWhile is_blank s)))"

text \<open>The line as the loop body sees it: one trailing carriage return removed, then blanks.\<close>

definition normalize_line :: "string \<Rightarrow> string" where
  "normalize_line raw =
     trim_blanks (if raw \<noteq> [] \<and> last raw = CHR 0x0D then butlast raw else raw)"

text \<open>The section name of a header line: the characters between the brackets, blanks trimmed.\<close>

definition section_name :: "string \<Rightarrow> string" where
  "section_name line = trim_blanks (take (length line - 2) (drop 1 line))"

text \<open>The test \<^verbatim>\<open>line[0] == '[' && line[line_len - 1] == ']'\<close> on a line that is not empty.\<close>

definition is_section_header :: "string \<Rightarrow> bool" where
  "is_section_header line \<longleftrightarrow> line \<noteq> [] \<and> hd line = CHR ''['' \<and> last line = CHR '']''"

text \<open>
  The end of the body of the line loop: a line that starts with \<^verbatim>\<open>dialogue:\<close> (in any
  case) is scanned, any other line is skipped.
\<close>

definition scan_dialogue_line :: "string \<Rightarrow> scan_state \<Rightarrow> scan_state" where
  "scan_dialogue_line line st =
     (if \<not> img_starts_with_icase line ''dialogue:'' then st
      else (case collect_img_paths_from_span line (paths st, seen st) of
              (ps, sn) \<Rightarrow> st\<lparr>paths := ps, seen := sn\<rparr>))"

text \<open>The body of the line loop of \<^verbatim>\<open>collect_img_paths\<close>, for the line \<^verbatim>\<open>[line_start, i)\<close>.\<close>

definition process_line :: "string \<Rightarrow> scan_state \<Rightarrow> scan_state" where
  "process_line raw st =
     (let line = normalize_line raw in
      if line = [] then st
      else if is_section_header line
      then st\<lparr>saw_section := True,
              in_events := (length (section_name line) = 6
                             \<and> img_starts_with_icase (section_name line) ''events'')\<rparr>
      else if saw_section st \<and> \<not> in_events st then st
      else scan_dialogue_line line st)"

text \<open>
  The loop \<^verbatim>\<open>for (i = 0; i <= len; ++i)\<close>: characters are collected into the current line
  until a line feed or the end of the data, where the line is processed.
\<close>

fun line_loop :: "string \<Rightarrow> string \<Rightarrow> scan_state \<Rightarrow> scan_state" where
  "line_loop [] cur st = process_line cur st"
| "line_loop (c # cs) cur st =
     (if c = CHR 0x0A then line_loop cs [] (process_line cur st)
      else line_loop cs (cur @ [c]) st)"

text \<open>
  The lines that loop visits, in order: the runs of characters between line feeds, and
  the last run up to the end of the data. Used to state properties of the loop.
\<close>

fun split_lines :: "string \<Rightarrow> string \<Rightarrow> string list" where
  "split_lines [] cur = [cur]"
| "split_lines (c # cs) cur =
     (if c = CHR 0x0A then cur # split_lines cs [] else split_lines cs (cur @ [c]))"

text \<open>The initial values of the local variables.\<close>

definition scan_init :: scan_state where
  "scan_init = \<lparr>paths = [], seen = {}, saw_section = False, in_events = True\<rparr>"

definition collect_img_paths :: "string \<Rightarrow> string list" where
  "collect_img_paths data = paths (line_loop data [] scan_init)"


section \<open>The frame compositor\<close>

type_synonym byte = "8 word"

text \<open>
  A 4-channel 8-bit pixel in memory order, read as \<^verbatim>\<open>px[0]\<close> .. \<^verbatim>\<open>px[3]\<close>: a
  \<^verbatim>\<open>bgra8_pixel_t\<close> of the frame is (B, G, R, A), an \<^verbatim>\<open>rgba8_pixel_t\<close> of a tile is
  (R, G, B, A).
\<close>

type_synonym pixel = "byte \<times> byte \<times> byte \<times> byte"

text \<open>
  \<^verbatim>\<open>VideoFrame\<close>: the fields the compositor uses. \<^verbatim>\<open>data\<close> is a byte vector of 4 bytes per
  pixel and \<^verbatim>\<open>width * 4\<close> bytes per row.
\<close>

record VideoFrame =
  frame_width :: nat
  frame_height :: nat
  frame_data :: "byte list"
  frame_flipped :: bool

text \<open>
  \<^verbatim>\<open>ASS_ImageRGBA\<close> and \<^verbatim>\<open>ASS_Image\<close>; the \<^verbatim>\<open>next\<close> pointer is the tail of a list. The
  engine hands over sizes, strides and offsets that are not negative, so they are
  naturals here.
\<close>

record ASS_ImageRGBA =
  rgba_w :: nat
  rgba_h :: nat
  rgba_stride :: nat
  rgba_rgba :: "byte list"
  rgba_dst_x :: nat
  rgba_dst_y :: nat

record ASS_Image =
  img_w :: nat
  img_h :: nat
  img_stride :: nat
  img_bitmap :: "byte list"
  img_color :: "32 word"
  img_dst_x :: nat
  img_dst_y :: nat

record ASS_RenderResult =
  imgs :: "ASS_Image list"
  imgs_rgba :: "ASS_ImageRGBA list"
  use_rgba :: bool

text \<open>The macros \<^verbatim>\<open>_r\<close>, \<^verbatim>\<open>_g\<close>, \<^verbatim>\<open>_b\<close>, \<^verbatim>\<open>_a\<close> on a 32-bit colour.\<close>

definition r_of :: "32 word \<Rightarrow> 32 word" where
  "r_of c = drop_bit 24 c"

definition g_of :: "32 word \<Rightarrow> 32 word" where
  "g_of c = drop_bit 16 c AND 0xFF"

definition b_of :: "32 word \<Rightarrow> 32 word" where
  "b_of c = drop_bit 8 c AND 0xFF"

definition a_of :: "32 word \<Rightarrow> 32 word" where
  "a_of c = c AND 0xFF"

text \<open>
  The lambda of the premultiplied-RGBA branch. The arithmetic is \<^verbatim>\<open>unsigned int\<close>; the
  \<^verbatim>\<open>static_cast<unsigned char>\<close> keeps the low 8 bits.
\<close>

definition blend_rgba :: "pixel \<Rightarrow> pixel \<Rightarrow> pixel" where
  "blend_rgba frame_px src_px =
     (case frame_px of (f0, f1, f2, f3) \<Rightarrow>
      case src_px of (s0, s1, s2, s3) \<Rightarrow>
        let alpha = (ucast s3 :: 32 word);
            inv_alpha = 255 - alpha
        in (ucast (ucast s2 + (ucast f0 * inv_alpha) div 255 :: 32 word),
            ucast (ucast s1 + (ucast f1 * inv_alpha) div 255 :: 32 word),
            ucast (ucast s0 + (ucast f2 * inv_alpha) div 255 :: 32 word),
            0))"

text \<open>
  The lambda of the alpha-mask branch; \<^verbatim>\<open>opacity\<close>, \<^verbatim>\<open>r\<close>, \<^verbatim>\<open>g\<close>, \<^verbatim>\<open>b\<close> are captured
  from the tile. The assignment to a channel keeps the low 8 bits.
\<close>

definition blend_mask :: "32 word \<Rightarrow> 32 word \<Rightarrow> 32 word \<Rightarrow> 32 word \<Rightarrow> pixel \<Rightarrow> byte \<Rightarrow> pixel" where
  "blend_mask opacity r g b frame_px src_px =
     (case frame_px of (f0, f1, f2, f3) \<Rightarrow>
        let k = (ucast src_px :: 32 word) * opacity div 255;
            ck = 255 - k
        in (ucast ((k * b + ck * ucast f0) div 255),
            ucast ((k * g + ck * ucast f1) div 255),
            ucast ((k * r + ck * ucast f2) div 255),
            0))"

text \<open>
  The destination view: \<^verbatim>\<open>interleaved_view\<close> over the frame data with a row of
  \<^verbatim>\<open>width * 4\<close> bytes, turned upside down by \<^verbatim>\<open>flipped_up_down_view\<close> when the frame is
  flipped. \<^verbatim>\<open>dst_offset\<close> is the byte offset of the pixel (x, y) of that view.
\<close>

definition dst_offset :: "VideoFrame \<Rightarrow> nat \<Rightarrow> nat \<Rightarrow> nat" where
  "dst_offset frame x y =
     ((if frame_flipped frame then frame_height frame - 1 - y else y) * frame_width frame + x) * 4"

definition get_pixel :: "VideoFrame \<Rightarrow> nat \<Rightarrow> nat \<Rightarrow> pixel" where
  "get_pixel frame x y =
     (let off = dst_offset frame x y; d = frame_data frame
      in (d ! off, d ! (off + 1), d ! (off + 2), d ! (off + 3)))"

definition put_pixel :: "VideoFrame \<Rightarrow> nat \<Rightarrow> nat \<Rightarrow> pixel \<Rightarrow> VideoFrame" where
  "put_pixel frame x y px =
     (case px of (p0, p1, p2, p3) \<Rightarrow>
        let off = dst_offset frame x y
        in frame\<lparr>frame_data :=
                   (frame_data frame)[off := p0, off + 1 := p1, off + 2 := p2, off + 3 := p3]\<rparr>)"

text \<open>The source views: a row of \<^verbatim>\<open>stride\<close> bytes, 4 bytes or 1 byte per pixel.\<close>

definition rgba_pixel :: "ASS_ImageRGBA \<Rightarrow> nat \<Rightarrow> nat \<Rightarrow> pixel" where
  "rgba_pixel img x y =
     (let off = y * rgba_stride img + x * 4; d = rgba_rgba img
      in (d ! off, d ! (off + 1), d ! (off + 2), d ! (off + 3)))"

definition mask_pixel :: "ASS_Image \<Rightarrow> nat \<Rightarrow> nat \<Rightarrow> byte" where
  "mask_pixel img x y = img_bitmap img ! (y * img_stride img + x)"

text \<open>
  \<^verbatim>\<open>transform_pixels(dstview, srcview, dstview, fn)\<close> on the sub-image of the destination
  at (dst_x, dst_y) of size w x h: rows from 0 to h - 1, in each row the pixels from 0 to
  w - 1; each destination pixel is read, combined with the source pixel and written back.
\<close>

definition transform_pixels ::
  "(pixel \<Rightarrow> 's \<Rightarrow> pixel) \<Rightarrow> (nat \<Rightarrow> nat \<Rightarrow> 's) \<Rightarrow> nat \<Rightarrow> nat \<Rightarrow> nat \<Rightarrow> nat
     \<Rightarrow> VideoFrame \<Rightarrow> VideoFrame" where
  "transform_pixels fn src dst_x dst_y w h frame =
     fold (\<lambda>(y, x) fr.
             put_pixel fr (dst_x + x) (dst_y + y)
               (fn (get_pixel fr (dst_x + x) (dst_y + y)) (src x y)))
          (List.product [0..<h] [0..<w]) frame"

text \<open>
  The views do no bounds checking: a tile that reaches outside the frame, a frame buffer
  shorter than \<^verbatim>\<open>width * height * 4\<close> or a tile buffer shorter than its rows is undefined
  behaviour in the source. The model returns \<^const>\<open>None\<close> there. A tile without pixels
  touches nothing.
\<close>

definition dst_in_bounds :: "VideoFrame \<Rightarrow> nat \<Rightarrow> nat \<Rightarrow> nat \<Rightarrow> nat \<Rightarrow> bool" where
  "dst_in_bounds frame dst_x dst_y w h \<longleftrightarrow>
     dst_x + w \<le> frame_width frame \<and> dst_y + h \<le> frame_height frame
     \<and> frame_width frame * frame_height frame * 4 \<le> length (frame_data frame)"

definition blend_rgba_tile :: "ASS_ImageRGBA \<Rightarrow> VideoFrame \<Rightarrow> VideoFrame option" where
  "blend_rgba_tile img frame =
     (if rgba_w img = 0 \<or> rgba_h img = 0 then Some frame
      else if dst_in_bounds frame (rgba_dst_x img) (rgba_dst_y img) (rgba_w img) (rgba_h img)
              \<and> (rgba_h img - 1) * rgba_stride img + rgba_w img * 4 \<le> length (rgba_rgba img)
      then Some (transform_pixels blend_rgba (rgba_pixel img)
                   (rgba_dst_x img) (rgba_dst_y img) (rgba_w img) (rgba_h img) frame)
      else None)"

definition blend_mask_tile :: "ASS_Image \<Rightarrow> VideoFrame \<Rightarrow> VideoFrame option" where
  "blend_mask_tile img frame =
     (let opacity = 255 - a_of (img_color img);
          r = r_of (img_color img);
          g = g_of (img_color img);
          b = b_of (img_color img)
      in if img_w img = 0 \<or> img_h img = 0 then Some frame
         else if dst_in_bounds frame (img_dst_x img) (img_dst_y img) (img_w img) (img_h img)
                 \<and> (img_h img - 1) * img_stride img + img_w img \<le> length (img_bitmap img)
         then Some (transform_pixels (blend_mask opacity r g b) (mask_pixel img)
                      (img_dst_x img) (img_dst_y img) (img_w img) (img_h img) frame)
         else None)"

text \<open>The loops over the linked lists, in list order.\<close>

fun blend_tiles :: "('t \<Rightarrow> VideoFrame \<Rightarrow> VideoFrame option) \<Rightarrow> 't list \<Rightarrow> VideoFrame
    \<Rightarrow> VideoFrame option" where
  "blend_tiles f [] frame = Some frame"
| "blend_tiles f (img # next) frame =
     (case f img frame of None \<Rightarrow> None | Some frame' \<Rightarrow> blend_tiles f next frame')"

text \<open>
  The compositing part of \<^verbatim>\<open>DrawSubtitles\<close>: the RGBA list when the engine prefers it and
  it is not null, the alpha-mask list otherwise.
\<close>

definition composite :: "ASS_RenderResult \<Rightarrow> VideoFrame \<Rightarrow> VideoFrame option" where
  "composite render_result frame =
     (if use_rgba render_result \<and> imgs_rgba render_result \<noteq> []
      then blend_tiles blend_rgba_tile (imgs_rgba render_result) frame
      else blend_tiles blend_mask_tile (imgs render_result) frame)"


text \<open>
  Sample data: a flipped frame of 2 x 2 pixels, a premultiplied tile of one pixel and an
  alpha-mask tile of one pixel, both placed at (1, 0), which is the last pixel of the
  buffer of the flipped frame.
\<close>

definition sample_frame :: VideoFrame where
  "sample_frame = \<lparr>frame_width = 2, frame_height = 2,
     frame_data = [1, 1, 1, 1, 2, 2, 2, 2, 3, 3, 3, 3, 4, 5, 6, 7], frame_flipped = True\<rparr>"

definition sample_rgba_tile :: ASS_ImageRGBA where
  "sample_rgba_tile = \<lparr>rgba_w = 1, rgba_h = 1, rgba_stride = 4, rgba_rgba = [10, 20, 30, 128],
     rgba_dst_x = 1, rgba_dst_y = 0\<rparr>"

definition sample_mask_tile :: "byte \<Rightarrow> ASS_Image" where
  "sample_mask_tile m = \<lparr>img_w = 1, img_h = 1, img_stride = 1, img_bitmap = [m],
     img_color = 0x0A141E7F, img_dst_x = 1, img_dst_y = 0\<rparr>"

section \<open>Tag images: formats, paths and decoding\<close>

datatype ASS_TagImageFormat =
  ASS_TAG_IMAGE_FORMAT_PNG | ASS_TAG_IMAGE_FORMAT_JPEG | ASS_TAG_IMAGE_FORMAT_WEBP

record TagImage =
  key :: string
  basename_lower :: string
  format :: ASS_TagImageFormat
  width :: int
  height :: int
  stride :: int
  rgba :: "byte list"

text \<open>A default-constructed \<^verbatim>\<open>TagImage\<close>.\<close>

definition TagImage_init :: TagImage where
  "TagImage_init = \<lparr>key = [], basename_lower = [], format = ASS_TAG_IMAGE_FORMAT_PNG,
     width = 0, height = 0, stride = 0, rgba = []\<rparr>"

definition is_separator :: "char \<Rightarrow> bool" where
  "is_separator c \<longleftrightarrow> c = CHR ''/'' \<or> c = backslash"

text \<open>\<^verbatim>\<open>path_basename\<close>: everything after the last slash or backslash, if there is one.\<close>

definition path_basename :: "string \<Rightarrow> string" where
  "path_basename path =
     (case find is_separator (rev path) of
        None \<Rightarrow> path
      | Some _ \<Rightarrow> rev (takeWhile (\<lambda>c. \<not> is_separator c) (rev path)))"

text \<open>\<^verbatim>\<open>lower.size() >= n && lower.compare(lower.size() - n, n, suffix) == 0\<close>\<close>

definition ends_with :: "string \<Rightarrow> string \<Rightarrow> bool" where
  "ends_with lower suffix \<longleftrightarrow>
     length lower \<ge> length suffix \<and> drop (length lower - length suffix) lower = suffix"

definition parse_tag_image_format :: "string \<Rightarrow> ASS_TagImageFormat option" where
  "parse_tag_image_format path =
     (let lower = to_lower_copy path in
      if ends_with lower ''.png'' then Some ASS_TAG_IMAGE_FORMAT_PNG
      else if ends_with lower ''.jpg'' then Some ASS_TAG_IMAGE_FORMAT_JPEG
      else if ends_with lower ''.jpeg'' then Some ASS_TAG_IMAGE_FORMAT_JPEG
      else if ends_with lower ''.webp'' then Some ASS_TAG_IMAGE_FORMAT_WEBP
      else None)"

text \<open>
  What the provider reads of a loaded \<^verbatim>\<open>wxImage\<close>: \<^verbatim>\<open>GetData\<close> is the RGB buffer (3 bytes
  per pixel, \<^const>\<open>None\<close> for a null pointer), \<^verbatim>\<open>GetAlpha\<close> the alpha plane when the img
  has one.
\<close>

record wxImage =
  IsOk :: bool
  GetWidth :: int
  GetHeight :: int
  GetData :: "byte list option"
  GetAlpha :: "byte list option"

text \<open>
  \<^verbatim>\<open>decode_image_to_rgba\<close>: interleaves RGB and alpha (255 without an alpha plane) into
  \<^verbatim>\<open>width * height\<close> pixels of 4 bytes.
\<close>

definition decode_image_to_rgba :: "wxImage \<Rightarrow> TagImage \<Rightarrow> TagImage option" where
  "decode_image_to_rgba img out =
     (if \<not> IsOk img then None
      else if GetWidth img \<le> 0 \<or> GetHeight img \<le> 0 then None
      else
        (case GetData img of
           None \<Rightarrow> None
         | Some rgb \<Rightarrow>
             Some (out\<lparr>width := GetWidth img, height := GetHeight img,
                        stride := GetWidth img * 4,
                        rgba := concat (map (\<lambda>i. [rgb ! (i * 3), rgb ! (i * 3 + 1), rgb ! (i * 3 + 2),
                                                    (case GetAlpha img of
                                                       Some alpha \<Rightarrow> alpha ! i
                                                     | None \<Rightarrow> 255)])
                                           [0..<nat (GetWidth img * GetHeight img)])\<rparr>)))"

text \<open>
  The collaborators outside this file: wxWidgets strings, file names, directories and
  image loading, the path library and the uudecoder. A \<^verbatim>\<open>wxString\<close> is a
  \<^typ>\<open>string\<close> here; the three conversions of a byte string to it are parameters.
  \<^verbatim>\<open>LoadFile\<close> and \<^verbatim>\<open>LoadStream\<close> give the loaded image, or \<^const>\<open>None\<close> when loading
  fails; \<^verbatim>\<open>DirFiles\<close> lists the files of a directory in enumeration order, or
  \<^const>\<open>None\<close> when the directory cannot be opened.
\<close>

record wx_env =
  FromUTF8 :: "string \<Rightarrow> string"
  FromUTF8Unchecked :: "string \<Rightarrow> string"
  FromLocal :: "string \<Rightarrow> string"
  utf8_str :: "string \<Rightarrow> string"
  IsAbsolute :: "string \<Rightarrow> bool"
  MakeAbsolute :: "string \<Rightarrow> string \<Rightarrow> string"
  FileExists :: "string \<Rightarrow> bool"
  LoadFile :: "string \<Rightarrow> wxImage option"
  LoadStream :: "byte list \<Rightarrow> wxImage option"
  DirFiles :: "string \<Rightarrow> string list option"
  DirJoin :: "string \<Rightarrow> string \<Rightarrow> string"
  parent_path :: "string \<Rightarrow> string"
  UUDecode :: "string \<Rightarrow> byte list"

definition append_unique_candidate :: "string list \<Rightarrow> string \<Rightarrow> string list" where
  "append_unique_candidate candidates path =
     (if path = [] then candidates
      else if path \<in> set candidates then candidates
      else candidates @ [path])"

text \<open>
  The vector \<^verbatim>\<open>bases\<close> that \<^verbatim>\<open>path_is_absolute\<close> and \<^verbatim>\<open>file_image_candidates\<close> both
  build first: the path under the three conversions, without duplicates.
\<close>

definition path_bases :: "wx_env \<Rightarrow> string \<Rightarrow> string list" where
  "path_bases env path =
     (let bases = append_unique_candidate [] (FromUTF8 env path);
          bases = (if path \<noteq> [] then append_unique_candidate bases (FromUTF8Unchecked env path)
                   else bases);
          bases = (if path \<noteq> [] then append_unique_candidate bases (FromLocal env path)
                   else bases)
      in bases)"

definition path_is_absolute :: "wx_env \<Rightarrow> string \<Rightarrow> bool" where
  "path_is_absolute env path = list_ex (IsAbsolute env) (path_bases env path)"

definition file_image_candidates :: "wx_env \<Rightarrow> string \<Rightarrow> string \<Rightarrow> string list" where
  "file_image_candidates env path script_dir =
     fold (\<lambda>base candidates.
             append_unique_candidate
               (if \<not> IsAbsolute env base \<and> script_dir \<noteq> []
                then append_unique_candidate candidates (MakeAbsolute env base script_dir)
                else candidates)
               base)
          (path_bases env path) []"

text \<open>The candidate loop of \<^verbatim>\<open>decode_file_image\<close>: the first candidate that exists and loads.\<close>

fun load_first_candidate :: "wx_env \<Rightarrow> string list \<Rightarrow> (wxImage \<times> string) option" where
  "load_first_candidate env [] = None"
| "load_first_candidate env (candidate # others) =
     (if \<not> FileExists env candidate then load_first_candidate env others
      else (case LoadFile env candidate of
              None \<Rightarrow> load_first_candidate env others
            | Some img \<Rightarrow> Some (img, candidate)))"

text \<open>
  The directory loop of \<^verbatim>\<open>decode_file_image\<close>: the first entry whose lower-cased name is
  the wanted base name and that loads.
\<close>

fun load_from_dir :: "wx_env \<Rightarrow> string \<Rightarrow> string \<Rightarrow> string list \<Rightarrow> (wxImage \<times> string) option" where
  "load_from_dir env script_dir base [] = None"
| "load_from_dir env script_dir base (entry # others) =
     (if to_lower_copy (utf8_str env entry) = base
      then (case LoadFile env (DirJoin env script_dir entry) of
              None \<Rightarrow> load_from_dir env script_dir base others
            | Some img \<Rightarrow> Some (img, DirJoin env script_dir entry))
      else load_from_dir env script_dir base others)"

text \<open>
  \<^verbatim>\<open>decode_file_image\<close>: the result is the filled image and \<^verbatim>\<open>*resolved_path\<close>, or
  \<^const>\<open>None\<close> for \<^verbatim>\<open>false\<close>.
\<close>

definition decode_file_image ::
  "wx_env \<Rightarrow> string \<Rightarrow> string \<Rightarrow> TagImage \<Rightarrow> (TagImage \<times> string) option" where
  "decode_file_image env path script_dir out0 =
     (case parse_tag_image_format path of
        None \<Rightarrow> None
      | Some fmt \<Rightarrow>
          let out = out0\<lparr>format := fmt\<rparr> in
          (case load_first_candidate env (file_image_candidates env path script_dir) of
             Some (img, candidate) \<Rightarrow>
               (case decode_image_to_rgba img out of
                  None \<Rightarrow> None
                | Some out' \<Rightarrow>
                    Some (out'\<lparr>key := path, basename_lower := to_lower_copy (path_basename path)\<rparr>,
                          utf8_str env candidate))
           | None \<Rightarrow>
               let base = to_lower_copy (path_basename path) in
               if script_dir \<noteq> [] \<and> base \<noteq> []
               then (case DirFiles env script_dir of
                       None \<Rightarrow> None
                     | Some entries \<Rightarrow>
                         (case load_from_dir env script_dir base entries of
                            None \<Rightarrow> None
                          | Some (img, candidate) \<Rightarrow>
                              (case decode_image_to_rgba img out of
                                 None \<Rightarrow> None
                               | Some out' \<Rightarrow>
                                   Some (out'\<lparr>key := path, basename_lower := base\<rparr>,
                                         utf8_str env candidate))))
               else None))"

text \<open>
  \<^verbatim>\<open>decode_attachment_image\<close> on the entry data of an attachment: the header line
  \<^verbatim>\<open>filename: <name>\<close>, then the uuencoded image.
\<close>

definition decode_attachment_image :: "wx_env \<Rightarrow> string \<Rightarrow> TagImage \<Rightarrow> TagImage option" where
  "decode_attachment_image env entry out0 =
     (if CHR 0x0A \<notin> set entry then None
      else
        let header = trim_copy (takeWhile (\<lambda>c. c \<noteq> CHR 0x0A) entry) in
        if length header < 9 \<or> to_lower_copy (take 9 header) \<noteq> ''filename:'' then None
        else
          let filename = trim_copy (drop 9 header) in
          if filename = [] then None
          else
            (case parse_tag_image_format filename of
               None \<Rightarrow> None
             | Some fmt \<Rightarrow>
                 let decoded = UUDecode env (drop 1 (dropWhile (\<lambda>c. c \<noteq> CHR 0x0A) entry)) in
                 if decoded = [] then None
                 else
                   (case LoadStream env decoded of
                      None \<Rightarrow> None
                    | Some img \<Rightarrow>
                        (case decode_image_to_rgba img (out0\<lparr>format := fmt\<rparr>) of
                           None \<Rightarrow> None
                         | Some out \<Rightarrow>
                             Some (out\<lparr>key := filename,
                                       basename_lower := to_lower_copy (path_basename filename)\<rparr>)))))"


section \<open>The provider\<close>

text \<open>A track handle returned by the engine; a null pointer is \<^const>\<open>None\<close>.\<close>

type_synonym ASS_Track = nat

text \<open>What one call of \<^verbatim>\<open>ass_set_tag_image_rgba\<close> hands to the engine besides the key.\<close>

type_synonym engine_image = "ASS_TagImageFormat \<times> int \<times> int \<times> int \<times> byte list"

definition payload :: "TagImage \<Rightarrow> engine_image" where
  "payload img = (format img, width img, height img, stride img, rgba img)"

text \<open>
  The engine behind the function-pointer table \<^verbatim>\<open>api\<close>. \<^verbatim>\<open>renderer\<close> says whether the
  accessor \<^verbatim>\<open>renderer()\<close> yields a renderer (not null); \<^verbatim>\<open>has_tag_image_api\<close> whether
  both optional tag-image symbols were found. \<^verbatim>\<open>ass_render_frame_auto\<close> sees the track,
  the registered tag images, the frame size and the time in milliseconds.
\<close>

record libassmod_api =
  ass_read_memory :: "string \<Rightarrow> ASS_Track option"
  renderer :: bool
  has_tag_image_api :: bool
  ass_set_tag_image_rgba :: "string \<Rightarrow> engine_image \<Rightarrow> int"
  ass_render_frame_auto ::
    "ASS_Track \<Rightarrow> (string \<times> engine_image) list \<Rightarrow> nat \<Rightarrow> nat \<Rightarrow> int \<Rightarrow> ASS_RenderResult"

text \<open>
  The members of \<^verbatim>\<open>LibassModSubtitlesProvider\<close>. Two fields stand for the engine's side:
  \<^verbatim>\<open>renderer_tag_images\<close> is the renderer's table of tag images (the accepted
  \<^verbatim>\<open>ass_set_tag_image_rgba\<close> calls since the last \<^verbatim>\<open>ass_clear_tag_images\<close>, in order), and
  \<^verbatim>\<open>freed_tracks\<close> lists the tracks given to \<^verbatim>\<open>ass_free_track\<close>.
\<close>

record provider =
  ass_track :: "ASS_Track option"
  attachment_tag_images :: "TagImage list"
  file_tag_image_cache :: "(string \<times> TagImage) list"
  tag_image_paths :: "string list"
  tag_image_script_dir :: string
  tag_images_dirty :: bool
  renderer_tag_images :: "(string \<times> engine_image) list"
  freed_tracks :: "ASS_Track list"

datatype AssEntryGroup = INFO | STYLE | FONT | GRAPHIC | DIALOGUE | EXTRADATA

record AssAttachment =
  Group :: AssEntryGroup
  GetEntryData :: string

record AssFile =
  Filename :: string
  Attachments :: "AssAttachment list"

datatype error = InternalError string

text \<open>
  \<^verbatim>\<open>LoadSubtitles\<close>: the result is the exception thrown, if any, and the provider as the
  call leaves it.
\<close>

definition LoadSubtitles ::
  "libassmod_api \<Rightarrow> string \<Rightarrow> provider \<Rightarrow> (error + unit) \<times> provider" where
  "LoadSubtitles api data prov =
     (let prov1 = (case ass_track prov of
                     Some old \<Rightarrow> prov\<lparr>freed_tracks := freed_tracks prov @ [old]\<rparr>
                   | None \<Rightarrow> prov);
          prov2 = prov1\<lparr>ass_track := ass_read_memory api data\<rparr>
      in case ass_track prov2 of
           None \<Rightarrow> (Inl (InternalError ''libassmod failed to load subtitles.''), prov2)
         | Some _ \<Rightarrow>
             (Inr (), prov2\<lparr>tag_image_paths := collect_img_paths data,
                            tag_images_dirty := True\<rparr>))"

text \<open>The local \<^verbatim>\<open>script_dir\<close> of \<^verbatim>\<open>PrepareSubtitles\<close>: empty for a script without file name.\<close>

definition script_dir_of :: "wx_env \<Rightarrow> AssFile \<Rightarrow> string" where
  "script_dir_of env subs = (if Filename subs \<noteq> [] then parent_path env (Filename subs) else [])"

text \<open>\<^verbatim>\<open>PrepareSubtitles\<close>\<close>

definition PrepareSubtitles :: "wx_env \<Rightarrow> AssFile \<Rightarrow> provider \<Rightarrow> provider" where
  "PrepareSubtitles env subs prov =
     (let script_dir = script_dir_of env subs;
          prov1 = (if script_dir \<noteq> tag_image_script_dir prov
                   then prov\<lparr>file_tag_image_cache := []\<rparr> else prov);
          prov2 = prov1\<lparr>tag_image_script_dir := script_dir\<rparr>
      in prov2\<lparr>attachment_tag_images :=
                  List.map_filter
                    (\<lambda>attachment.
                       if Group attachment \<noteq> GRAPHIC then None
                       else decode_attachment_image env (GetEntryData attachment) TagImage_init)
                    (Attachments subs)\<rparr>)"

text \<open>
  What \<^verbatim>\<open>decode_attachment_image\<close> and \<^verbatim>\<open>decode_file_image\<close> establish for the image they
  fill: the format is the one the key's extension declares, and \<^verbatim>\<open>basename_lower\<close> is the
  lower-cased base name of the key.
\<close>

definition decoded_from_key :: "TagImage \<Rightarrow> bool" where
  "decoded_from_key img \<longleftrightarrow>
     parse_tag_image_format (key img) = Some (format img)
     \<and> basename_lower img = to_lower_copy (path_basename (key img))"

text \<open>
  The registration pass of \<^verbatim>\<open>RegisterTagImages\<close>: the set \<^verbatim>\<open>registered_paths\<close> and the
  renderer's table.
\<close>

record registration =
  registered_paths :: "string set"
  tag_images :: "(string \<times> engine_image) list"

text \<open>The lambda \<^verbatim>\<open>register_key\<close>; the image fields are passed as one image.\<close>

definition register_key :: "libassmod_api \<Rightarrow> string \<Rightarrow> TagImage \<Rightarrow> registration \<Rightarrow> registration" where
  "register_key api k img reg =
     (if k = [] then reg
      else if k \<in> registered_paths reg then reg
      else if ass_set_tag_image_rgba api k (payload img) \<ge> 0
      then reg\<lparr>registered_paths := insert k (registered_paths reg),
               tag_images := tag_images reg @ [(k, payload img)]\<rparr>
      else reg)"

text \<open>The lambda \<^verbatim>\<open>register_path_variants\<close>: the stripped key, then its double-quoted form.\<close>

definition register_path_variants ::
  "libassmod_api \<Rightarrow> string \<Rightarrow> TagImage \<Rightarrow> registration \<Rightarrow> registration" where
  "register_path_variants api k img reg =
     (let clean = strip_matching_quotes k in
      if clean = [] then reg
      else register_key api (add_double_quotes clean) img (register_key api clean img reg))"

text \<open>
  The body of the loop over the attachment images: \<^verbatim>\<open>emplace\<close> keeps an existing entry of
  \<^verbatim>\<open>attachment_by_name\<close>.
\<close>

definition register_attachment ::
  "libassmod_api \<Rightarrow> TagImage \<Rightarrow> (string \<times> TagImage) list \<times> registration
     \<Rightarrow> (string \<times> TagImage) list \<times> registration" where
  "register_attachment api img st =
     (case st of (attachment_by_name, reg) \<Rightarrow>
        ((case map_of attachment_by_name (basename_lower img) of
            None \<Rightarrow> attachment_by_name @ [(basename_lower img, img)]
          | Some _ \<Rightarrow> attachment_by_name),
         register_path_variants api (key img) img reg))"

text \<open>
  The file lookup of the loop over the referenced paths: the memo
  \<^verbatim>\<open>file_tag_image_cache\<close> first, \<^verbatim>\<open>decode_file_image\<close> on a miss, and the decoded image
  memoized under the path with the resolved file as its key. The result is \<^verbatim>\<open>file_it\<close>
  (\<^const>\<open>None\<close> for \<^verbatim>\<open>end()\<close>) and the provider.
\<close>

definition lookup_file_image ::
  "wx_env \<Rightarrow> string \<Rightarrow> provider \<Rightarrow> TagImage option \<times> provider" where
  "lookup_file_image env path prov =
     (case map_of (file_tag_image_cache prov) path of
        Some img \<Rightarrow> (Some img, prov)
      | None \<Rightarrow>
          (case decode_file_image env path (tag_image_script_dir prov) TagImage_init of
             Some (file_image, resolved_file_path) \<Rightarrow>
               let file_image' = file_image\<lparr>key := (if resolved_file_path = [] then path
                                                      else resolved_file_path)\<rparr>
               in (Some file_image',
                   prov\<lparr>file_tag_image_cache := file_tag_image_cache prov @ [(path, file_image')]\<rparr>)
           | None \<Rightarrow> (None, prov)))"

text \<open>
  The end of the loop body, reached without a usable file image: nothing for an absolute
  path, otherwise the attachment with the same lower-case base name, if its format is
  the one the path's extension declares.
\<close>

definition attachment_fallback ::
  "libassmod_api \<Rightarrow> (string \<times> TagImage) list \<Rightarrow> string \<Rightarrow> ASS_TagImageFormat \<Rightarrow> bool
     \<Rightarrow> registration \<Rightarrow> registration" where
  "attachment_fallback api attachment_by_name path fmt absolute_path reg =
     (if absolute_path then reg
      else
        (case map_of attachment_by_name (to_lower_copy (path_basename path)) of
           None \<Rightarrow> reg
         | Some img \<Rightarrow>
             if format img \<noteq> fmt then reg
             else register_path_variants api (key img) img
                    (register_path_variants api path img reg)))"

text \<open>The body of the loop over \<^verbatim>\<open>tag_image_paths\<close>.\<close>

definition register_referenced_path ::
  "wx_env \<Rightarrow> libassmod_api \<Rightarrow> (string \<times> TagImage) list \<Rightarrow> string
     \<Rightarrow> provider \<times> registration \<Rightarrow> provider \<times> registration" where
  "register_referenced_path env api attachment_by_name raw_path st =
     (case st of (prov, reg) \<Rightarrow>
        let path = strip_matching_quotes raw_path in
        if path = [] then (prov, reg)
        else
          (case parse_tag_image_format path of
             None \<Rightarrow> (prov, reg)
           | Some fmt \<Rightarrow>
               let absolute_path = path_is_absolute env path in
               (case lookup_file_image env path prov of
                  (Some img, prov') \<Rightarrow>
                    if format img = fmt
                    then (prov', register_path_variants api (key img) img
                                   (register_path_variants api path img reg))
                    else (prov', attachment_fallback api attachment_by_name path fmt absolute_path reg)
                | (None, prov') \<Rightarrow>
                    (prov', attachment_fallback api attachment_by_name path fmt absolute_path reg))))"

text \<open>\<^verbatim>\<open>RegisterTagImages\<close>\<close>

definition RegisterTagImages :: "wx_env \<Rightarrow> libassmod_api \<Rightarrow> provider \<Rightarrow> provider" where
  "RegisterTagImages env api prov =
     (if \<not> tag_images_dirty prov then prov
      else if \<not> renderer api then prov
      else if \<not> has_tag_image_api api then prov\<lparr>tag_images_dirty := False\<rparr>
      else
        (case fold (register_attachment api) (attachment_tag_images prov)
                ([], \<lparr>registered_paths = {}, tag_images = []\<rparr>) of
           (attachment_by_name, reg1) \<Rightarrow>
             (case fold (register_referenced_path env api attachment_by_name)
                     (tag_image_paths prov) (prov, reg1) of
                (prov', reg2) \<Rightarrow>
                  prov'\<lparr>renderer_tag_images := tag_images reg2, tag_images_dirty := False\<rparr>)))"

text \<open>
  \<^verbatim>\<open>DrawSubtitles\<close>, with the time already converted to milliseconds. The result is the
  provider and the frame, \<^const>\<open>None\<close> where the source's behaviour is undefined.
\<close>

definition DrawSubtitles ::
  "wx_env \<Rightarrow> libassmod_api \<Rightarrow> provider \<Rightarrow> VideoFrame \<Rightarrow> int \<Rightarrow> provider \<times> VideoFrame option" where
  "DrawSubtitles env api prov frame time_ms =
     (case ass_track prov of
        None \<Rightarrow> (prov, Some frame)
      | Some track \<Rightarrow>
          if \<not> renderer api then (prov, Some frame)
          else
            let prov' = RegisterTagImages env api prov;
                render_result = ass_render_frame_auto api track (renderer_tag_images prov')
                                  (frame_width frame) (frame_height frame) time_ms
            in (prov', composite render_result frame))"


text \<open>
  Sample collaborators: a file system with the single image \<^verbatim>\<open>/subs/pic.png\<close> of one
  pixel, absolute paths starting with a slash, and an engine that parses every buffer
  that is not empty and accepts every tag image.
\<close>

definition sample_wx_image :: wxImage where
  "sample_wx_image = \<lparr>IsOk = True, GetWidth = 1, GetHeight = 1, GetData = Some [1, 2, 3],
     GetAlpha = None\<rparr>"

definition sample_env :: wx_env where
  "sample_env = \<lparr>FromUTF8 = (\<lambda>p. p), FromUTF8Unchecked = (\<lambda>p. p), FromLocal = (\<lambda>p. p),
     utf8_str = (\<lambda>p. p),
     IsAbsolute = (\<lambda>p. p \<noteq> [] \<and> hd p = CHR ''/''),
     MakeAbsolute = (\<lambda>p dir. dir @ ''/'' @ p),
     FileExists = (\<lambda>p. p = ''/subs/pic.png''),
     LoadFile = (\<lambda>p. if p = ''/subs/pic.png'' then Some sample_wx_image else None),
     LoadStream = (\<lambda>bytes. if bytes = [] then None else Some sample_wx_image),
     DirFiles = (\<lambda>dir. if dir = ''/subs'' then Some [''pic.png''] else None),
     DirJoin = (\<lambda>dir entry. dir @ ''/'' @ entry),
     parent_path = (\<lambda>p. rev (drop 1 (dropWhile (\<lambda>c. c \<noteq> CHR ''/'') (rev p)))),
     UUDecode = (\<lambda>body. map (\<lambda>c. of_nat (of_char c)) body)\<rparr>"

text \<open>The same collaborators after the image file has been removed.\<close>

definition sample_env_no_files :: wx_env where
  "sample_env_no_files = sample_env\<lparr>FileExists := (\<lambda>p. False), LoadFile := (\<lambda>p. None),
     DirFiles := (\<lambda>dir. None)\<rparr>"

definition sample_api :: libassmod_api where
  "sample_api = \<lparr>ass_read_memory = (\<lambda>data. if data = [] then None else Some (length data)),
     renderer = True, has_tag_image_api = True,
     ass_set_tag_image_rgba = (\<lambda>k img. 0),
     ass_render_frame_auto = (\<lambda>track images w h ms. \<lparr>imgs = [], imgs_rgba = [], use_rgba = False\<rparr>)\<rparr>"

text \<open>
  The sample engine with a render result of three premultiplied tiles (the sample tile
  twice, then the same tile at (0, 0)) and three alpha-mask tiles (mask 100 and mask 255
  at (1, 0), then mask 255 at (0, 0)); the argument says which list the engine prefers.
\<close>

definition sample_render_api :: "bool \<Rightarrow> libassmod_api" where
  "sample_render_api prefer_rgba =
     sample_api\<lparr>ass_render_frame_auto :=
       (\<lambda>track images w h ms.
          \<lparr>imgs = [sample_mask_tile 100, sample_mask_tile 255,
                   (sample_mask_tile 255)\<lparr>img_dst_x := 0\<rparr>],
           imgs_rgba = [sample_rgba_tile, sample_rgba_tile, sample_rgba_tile\<lparr>rgba_dst_x := 0\<rparr>],
           use_rgba = prefer_rgba\<rparr>)\<rparr>"

definition sample_provider :: provider where
  "sample_provider = \<lparr>ass_track = Some 1, attachment_tag_images = [], file_tag_image_cache = [],
     tag_image_paths = [''old.png''], tag_image_script_dir = ''/subs'', tag_images_dirty = False,
     renderer_tag_images = [], freed_tracks = []\<rparr>"

text \<open>A script with one graphic attachment named \<^verbatim>\<open>Foo.PNG\<close> and one font attachment.\<close>

definition sample_script :: AssFile where
  "sample_script = \<lparr>Filename = ''/subs/a.ass'',
     Attachments = [\<lparr>Group = GRAPHIC, GetEntryData = ''filename: Foo.PNG'' @ [CHR 0x0A] @ ''abc''\<rparr>,
                    \<lparr>Group = FONT, GetEntryData = ''filename: bar.png'' @ [CHR 0x0A] @ ''abc''\<rparr>]\<rparr>"

text \<open>The image that the lookup of \<^verbatim>\<open>pic.png\<close> decodes from the sample file system.\<close>

definition sample_file_image :: TagImage where
  "sample_file_image = \<lparr>key = ''/subs/pic.png'', basename_lower = ''pic.png'',
     format = ASS_TAG_IMAGE_FORMAT_PNG, width = 1, height = 1, stride = 4,
     rgba = [1, 2, 3, 255]\<rparr>"

text \<open>An attachment image as \<^verbatim>\<open>decode_attachment_image\<close> fills it for the name \<^verbatim>\<open>Foo.PNG\<close>.\<close>

definition sample_attachment :: TagImage where
  "sample_attachment = \<lparr>key = ''Foo.PNG'', basename_lower = ''foo.png'',
     format = ASS_TAG_IMAGE_FORMAT_PNG, width = 1, height = 1, stride = 4,
     rgba = [1, 2, 3, 255]\<rparr>"

section \<open>Trimming and quote stripping\<close>

lemma trim_copy_Nil: "trim_copy [] = []"
  by (simp add: trim_copy_def)

lemma trim_copy_fixed:
  assumes "s \<noteq> []" "\<not> isspace (hd s)" "\<not> isspace (last s)"
  shows "trim_copy s = s"
proof -
  have a: "dropWhile isspace s = s"
    using assms by (simp add: dropWhile_eq_self_iff)
  have b: "dropWhile isspace (rev s) = rev s"
    using assms by (simp add: dropWhile_eq_self_iff hd_rev)
  show ?thesis
    using assms(1) by (simp add: trim_copy_def a b)
qed

lemma trim_copy_ends:
  assumes "trim_copy s \<noteq> []"
  shows "\<not> isspace (hd (trim_copy s)) \<and> \<not> isspace (last (trim_copy s))"
proof -
  define t where "t = dropWhile isspace s"
  define u where "u = dropWhile isspace (rev t)"
  have t: "t \<noteq> []" and r: "trim_copy s = rev u"
    using assms by (auto simp: trim_copy_def t_def u_def Let_def split: if_splits)
  have ht: "\<not> isspace (hd t)"
    using t unfolding t_def by (metis hd_dropWhile)
  have u: "u \<noteq> []"
    using assms r by simp
  have hu: "\<not> isspace (hd u)"
    using u unfolding u_def by (metis hd_dropWhile)
  obtain pre where pre: "rev t = pre @ u"
    unfolding u_def by (metis takeWhile_dropWhile_id)
  have "t = rev u @ rev pre"
    using pre by (metis rev_append rev_rev_ident)
  then have "hd (rev u) = hd t"
    using u by simp
  with ht hu u show ?thesis
    by (simp add: r last_rev)
qed

lemma trim_copy_idem: "trim_copy (trim_copy s) = trim_copy s"
proof (cases "trim_copy s = []")
  case True
  then show ?thesis by (simp add: trim_copy_Nil)
next
  case False
  then show ?thesis
    using trim_copy_ends [OF False] by (intro trim_copy_fixed) auto
qed

lemma length_trim_copy: "length (trim_copy s) \<le> length s"
proof -
  have "length (dropWhile isspace (rev (dropWhile isspace s))) \<le> length (dropWhile isspace s)"
    by (metis length_dropWhile_le length_rev)
  also have "\<dots> \<le> length s"
    by (rule length_dropWhile_le)
  finally show ?thesis
    by (simp add: trim_copy_def Let_def)
qed

lemma strip_matching_quotes_trimmed:
  "trim_copy (strip_matching_quotes p) = strip_matching_quotes p"
  by (simp add: strip_matching_quotes_def Let_def trim_copy_idem)

lemma strip_unquoted_fixed:
  assumes "trim_copy s = s" "\<not> quoted s"
  shows "strip_matching_quotes s = s"
  using assms by (simp add: strip_matching_quotes_def Let_def)

lemma strip_quoted_shorter:
  assumes "trim_copy s = s" "quoted s"
  shows "length (strip_matching_quotes s) < length s"
proof -
  have "strip_matching_quotes s = trim_copy (take (length s - 2) (drop 1 s))"
    using assms by (simp add: strip_matching_quotes_def Let_def)
  then have "length (strip_matching_quotes s) \<le> length (take (length s - 2) (drop 1 s))"
    by (simp only: length_trim_copy)
  also have "\<dots> < length s"
    using assms(2) by (auto simp: quoted_def)
  finally show ?thesis .
qed

text \<open>
  What \<^verbatim>\<open>trim_copy\<close> and \<^verbatim>\<open>strip_matching_quotes\<close> return on a string made of
  white space, a core and white space.
\<close>

lemma trim_copy_blank:
  assumes "list_all isspace p"
  shows "trim_copy p = []"
proof -
  have "dropWhile isspace p = []"
    using assms by (simp add: list_all_iff)
  then show ?thesis
    by (simp add: trim_copy_def)
qed

lemma trim_copy_core:
  assumes "list_all isspace l" "list_all isspace r"
    and "core \<noteq> []" "\<not> isspace (hd core)" "\<not> isspace (last core)"
  shows "trim_copy (l @ core @ r) = core"
proof -
  have "dropWhile isspace (core @ r) = core @ r"
    using assms(3,4) by (cases core) simp_all
  then have a: "dropWhile isspace (l @ core @ r) = core @ r"
    using assms(1) by (simp add: dropWhile_append2 list_all_iff)
  have "dropWhile isspace (rev core) = rev core"
    using assms(3,5) by (cases "rev core") (simp_all add: last_rev [symmetric] hd_rev)
  moreover have "dropWhile isspace (rev r @ rev core) = dropWhile isspace (rev core)"
    using assms(2) by (intro dropWhile_append2) (simp add: list_all_iff)
  ultimately have b: "dropWhile isspace (rev r @ rev core) = rev core"
    by simp
  show ?thesis
    using assms(3) by (simp add: trim_copy_def a b)
qed

lemma strip_matching_quotes_blank:
  assumes "list_all isspace p"
  shows "strip_matching_quotes p = []"
  using trim_copy_blank [OF assms]
  by (simp add: strip_matching_quotes_def quoted_def trim_copy_Nil)

lemma strip_matching_quotes_core:
  assumes "list_all isspace l" "list_all isspace r"
    and "core \<noteq> []" "\<not> isspace (hd core)" "\<not> isspace (last core)" "\<not> quoted core"
  shows "strip_matching_quotes (l @ core @ r) = core"
  using trim_copy_core [OF assms(1-5)] trim_copy_core [of "[]" "[]" core] assms(3-6)
  by (simp add: strip_matching_quotes_def)

lemma quote_not_space:
  assumes "q = dquote \<or> q = squote"
  shows "\<not> isspace q"
  using assms by (auto simp: isspace_def dquote_def squote_def)

lemma strip_matching_quotes_pair:
  assumes "list_all isspace l" "list_all isspace r" "q = dquote \<or> q = squote"
    and "trim_copy inner = core"
  shows "strip_matching_quotes (l @ q # inner @ q # r) = core"
proof -
  let ?p = "q # inner @ [q]"
  have p: "?p \<noteq> []" "\<not> isspace (hd ?p)" "\<not> isspace (last ?p)"
    using quote_not_space [OF assms(3)] by simp_all
  have "trim_copy (l @ ?p @ r) = ?p"
    using assms(1,2) p by (rule trim_copy_core)
  then have t: "trim_copy (l @ q # inner @ q # r) = ?p"
    by simp
  have qd: "quoted ?p"
    using assms(3) by (auto simp: quoted_def)
  have "take (length ?p - 2) (drop 1 ?p) = inner"
    by simp
  then show ?thesis
    unfolding strip_matching_quotes_def t Let_def using qd assms(4) by simp
qed

text \<open>
  Claim C4, as the code has it. \<^verbatim>\<open>strip_matching_quotes\<close> removes exactly one enclosing
  pair of quotes, so a second application changes the result exactly when the first
  result is again enclosed in a matching pair: stripping twice equals stripping once if
  and only if the once-stripped string is not \<^const>\<open>quoted\<close>.
\<close>

theorem strip_matching_quotes_twice_iff:
  "strip_matching_quotes (strip_matching_quotes p) = strip_matching_quotes p
     \<longleftrightarrow> \<not> quoted (strip_matching_quotes p)"
proof (cases "quoted (strip_matching_quotes p)")
  case True
  have "length (strip_matching_quotes (strip_matching_quotes p)) < length (strip_matching_quotes p)"
    using strip_matching_quotes_trimmed True by (rule strip_quoted_shorter)
  with True show ?thesis by auto
next
  case False
  with strip_matching_quotes_trimmed show ?thesis
    by (simp add: strip_unquoted_fixed)
qed

text \<open>
  A use of the theorem: the path \<^verbatim>\<open> " a.png "\<close> strips to \<^verbatim>\<open>a.png\<close>, which is not quoted,
  and stripping it again gives \<^verbatim>\<open>a.png\<close>.
\<close>

theorem strip_matching_quotes_twice_witness:
  "\<not> quoted (strip_matching_quotes ('' '' @ [dquote] @ '' a.png '' @ [dquote]))
   \<and> strip_matching_quotes (strip_matching_quotes ('' '' @ [dquote] @ '' a.png '' @ [dquote]))
       = ''a.png''"
  using strip_matching_quotes_twice_iff [of "'' '' @ [dquote] @ '' a.png '' @ [dquote]"]
  by (simp add: strip_matching_quotes_def trim_copy_def quoted_def isspace_def dquote_def
      squote_def)

text \<open>
  Claim C4 as stated fails on a doubly quoted path: \<^verbatim>\<open>""a""\<close> strips to \<^verbatim>\<open>"a"\<close>, and that
  strips to \<^verbatim>\<open>a\<close>.
\<close>

theorem strip_matching_quotes_not_idempotent:
  "strip_matching_quotes (strip_matching_quotes [dquote, dquote, CHR ''a'', dquote, dquote])
     \<noteq> strip_matching_quotes [dquote, dquote, CHR ''a'', dquote, dquote]"
  by (simp add: strip_matching_quotes_def trim_copy_def quoted_def isspace_def dquote_def
      squote_def)


section \<open>The scan of one span\<close>

lemma remdups_snoc: "remdups (ys @ [x]) = filter (\<lambda>y. y \<noteq> x) (remdups ys) @ [x]"
  by (induction ys) auto

lemma first_occurrence_Cons:
  "rev (remdups (rev (x # xs))) = x # rev (remdups (rev (filter (\<lambda>y. y \<noteq> x) xs)))"
  by (simp add: remdups_snoc remdups_filter rev_filter del: remdups.simps)

lemma push_path_fst:
  "fst (push_path raw (ps, set ps)) =
     ps @ (if strip_matching_quotes raw \<noteq> [] \<and> strip_matching_quotes raw \<notin> set ps
           then [strip_matching_quotes raw] else [])"
  by (simp add: push_path_def Let_def)

lemma push_path_snd: "snd (push_path raw (ps, set ps)) = set (fst (push_path raw (ps, set ps)))"
  by (simp add: push_path_def Let_def)

lemma collect_img_paths_from_span_general:
  "collect_img_paths_from_span s (ps, set ps) =
     (ps @ rev (remdups (rev (filter (\<lambda>p. p \<noteq> [] \<and> p \<notin> set ps) (img_occurrences s)))),
      set ps \<union> {p \<in> set (img_occurrences s). p \<noteq> []})"
proof (induction s arbitrary: ps)
  case Nil
  show ?case by simp
next
  case (Cons c cs)
  show ?case
  proof (cases "4 < length (c # cs)")
    case False
    then show ?thesis using Cons.IH [of ps] by simp
  next
    case long: True
    show ?thesis
    proof (cases "img_argument (c # cs)")
      case None
      then show ?thesis using long Cons.IH [of ps] by simp
    next
      case (Some raw)
      define p where "p = strip_matching_quotes raw"
      show ?thesis
      proof (cases "p \<noteq> [] \<and> p \<notin> set ps")
        case True
        have step: "push_path raw (ps, set ps) = (ps @ [p], set (ps @ [p]))"
          using True by (simp add: push_path_def p_def Let_def)
        have flt: "filter (\<lambda>q. q \<noteq> [] \<and> q \<notin> set (ps @ [p])) (img_occurrences cs)
                    = filter (\<lambda>y. y \<noteq> p) (filter (\<lambda>q. q \<noteq> [] \<and> q \<notin> set ps) (img_occurrences cs))"
          by (auto intro: filter_cong)
        have hd_new: "filter (\<lambda>q. q \<noteq> [] \<and> q \<notin> set ps) (img_occurrences (c # cs))
                       = p # filter (\<lambda>q. q \<noteq> [] \<and> q \<notin> set ps) (img_occurrences cs)"
          using long Some True by (simp add: p_def)
        have "collect_img_paths_from_span (c # cs) (ps, set ps)
                = collect_img_paths_from_span cs (ps @ [p], set (ps @ [p]))"
          using long Some step by simp
        also have "\<dots> = ((ps @ [p]) @ rev (remdups (rev (filter (\<lambda>q. q \<noteq> [] \<and> q \<notin> set (ps @ [p]))
                                 (img_occurrences cs)))),
                             set (ps @ [p]) \<union> {q \<in> set (img_occurrences cs). q \<noteq> []})"
          by (rule Cons.IH)
        also have "\<dots> = (ps @ rev (remdups (rev (filter (\<lambda>q. q \<noteq> [] \<and> q \<notin> set ps)
                                 (img_occurrences (c # cs))))),
                             set ps \<union> {q \<in> set (img_occurrences (c # cs)). q \<noteq> []})"
          unfolding hd_new first_occurrence_Cons flt
          using long Some True by (auto simp: p_def)
        finally show ?thesis .
      next
        case False
        have step: "push_path raw (ps, set ps) = (ps, set ps)"
          using False by (auto simp: push_path_def p_def Let_def)
        have same: "filter (\<lambda>q. q \<noteq> [] \<and> q \<notin> set ps) (img_occurrences (c # cs))
                       = filter (\<lambda>q. q \<noteq> [] \<and> q \<notin> set ps) (img_occurrences cs)"
          using long Some False by (auto simp: p_def)
        have "collect_img_paths_from_span (c # cs) (ps, set ps)
                = collect_img_paths_from_span cs (ps, set ps)"
          using long Some step by simp
        also have "\<dots> = (ps @ rev (remdups (rev (filter (\<lambda>q. q \<noteq> [] \<and> q \<notin> set ps)
                                 (img_occurrences cs)))),
                             set ps \<union> {q \<in> set (img_occurrences cs). q \<noteq> []})"
          by (rule Cons.IH)
        also have "\<dots> = (ps @ rev (remdups (rev (filter (\<lambda>q. q \<noteq> [] \<and> q \<notin> set ps)
                                 (img_occurrences (c # cs))))),
                             set ps \<union> {q \<in> set (img_occurrences (c # cs)). q \<noteq> []})"
          unfolding same
          using long Some False by (auto simp: p_def)
        finally show ?thesis .
      qed
    qed
  qed
qed

lemma dropWhile_blank_prefix:
  "list_all is_blank ws \<Longrightarrow> dropWhile is_blank (ws @ rest) = dropWhile is_blank rest"
  by (simp add: dropWhile_append2 list_all_iff)

lemma paren_not_blank: "\<not> is_blank (CHR ''('')"
  by (simp add: is_blank_def tab_def)

lemma i_not_layer_digit: "\<not> is_layer_digit (CHR ''i'')"
  by (simp add: is_layer_digit_def)

text \<open>After a tag head, only the text behind the blanks decides the argument.\<close>

lemma img_argument_head:
  assumes d: "length d \<le> 1" "list_all is_layer_digit d"
    and ws: "list_all is_blank ws1" "list_all is_blank ws2"
  shows "img_argument (backslash # d @ ''img'' @ ws1 @ ''('' @ ws2 @ rest) =
     (case dropWhile is_blank rest of
        [] \<Rightarrow> None
      | q # after_q \<Rightarrow>
          let arg = (if q = dquote \<or> q = squote
                     then takeWhile (\<lambda>c. c \<noteq> q) after_q
                     else takeWhile (\<lambda>c. c \<noteq> CHR '','' \<and> c \<noteq> CHR '')'') (q # after_q))
          in if arg = [] then None else Some arg)"
proof -
  define tl where "tl = ''img'' @ ws1 @ ''('' @ ws2 @ rest"
  have from_j: "(case d @ tl of [] \<Rightarrow> d @ tl | c # r \<Rightarrow> if is_layer_digit c then r else d @ tl) = tl"
  proof (cases d)
    case Nil
    then show ?thesis by (simp add: tl_def i_not_layer_digit)
  next
    case (Cons c r)
    with d show ?thesis by simp
  qed
  have skip1: "dropWhile is_blank (drop 3 tl) = CHR ''('' # ws2 @ rest"
    using ws(1) by (simp add: tl_def dropWhile_append2 list_all_iff paren_not_blank)
  have skip2: "dropWhile is_blank (ws2 @ rest) = dropWhile is_blank rest"
    using ws(2) by (rule dropWhile_blank_prefix)
  have "img_argument (backslash # d @ tl) =
     (case dropWhile is_blank rest of
        [] \<Rightarrow> None
      | q # after_q \<Rightarrow>
          let arg = (if q = dquote \<or> q = squote
                     then takeWhile (\<lambda>c. c \<noteq> q) after_q
                     else takeWhile (\<lambda>c. c \<noteq> CHR '','' \<and> c \<noteq> CHR '')'') (q # after_q))
          in if arg = [] then None else Some arg)"
    unfolding img_argument_def list.case from_j Let_def skip1 skip2
    by (simp add: tl_def)
  then show ?thesis by (simp add: tl_def)
qed

lemma img_argument_tag:
  assumes "img_tag_parts d ws1 ws2"
  shows "img_argument (img_tag_head d ws1 ws2 @ rest) =
     (case dropWhile is_blank rest of
        [] \<Rightarrow> None
      | q # after_q \<Rightarrow>
          let arg = (if q = dquote \<or> q = squote
                     then takeWhile (\<lambda>c. c \<noteq> q) after_q
                     else takeWhile (\<lambda>c. c \<noteq> CHR '','' \<and> c \<noteq> CHR '')'') (q # after_q))
          in if arg = [] then None else Some arg)"
  using assms img_argument_head [of d ws1 ws2 rest]
  by (simp add: img_tag_parts_def img_tag_head_def)

lemma img_tag_head_Cons: "img_tag_head d ws1 ws2 @ rest = backslash # tl (img_tag_head d ws1 ws2 @ rest)"
  by (simp add: img_tag_head_def)

lemma length_img_tag_head: "4 < length (img_tag_head d ws1 ws2)"
  by (simp add: img_tag_head_def)

lemma span_step_None:
  assumes "img_argument (c # cs) = None"
  shows "collect_img_paths_from_span (c # cs) st = collect_img_paths_from_span cs st"
  using assms by simp

lemma span_step_Some:
  assumes "img_argument (c # cs) = Some raw" "4 < length (c # cs)"
  shows "collect_img_paths_from_span (c # cs) st = collect_img_paths_from_span cs (push_path raw st)"
  using assms by simp

lemma tag_step_None:
  assumes "img_argument (img_tag_head d ws1 ws2 @ rest) = None"
  shows "collect_img_paths_from_span (img_tag_head d ws1 ws2 @ rest) st
           = collect_img_paths_from_span (tl (img_tag_head d ws1 ws2 @ rest)) st"
  using assms span_step_None [of backslash "tl (img_tag_head d ws1 ws2 @ rest)" st]
  by (simp add: img_tag_head_Cons [symmetric])

lemma tag_step_Some:
  assumes "img_argument (img_tag_head d ws1 ws2 @ rest) = Some raw"
  shows "collect_img_paths_from_span (img_tag_head d ws1 ws2 @ rest) st
           = collect_img_paths_from_span (tl (img_tag_head d ws1 ws2 @ rest)) (push_path raw st)"
proof -
  have "4 < length (backslash # tl (img_tag_head d ws1 ws2 @ rest))"
    using length_img_tag_head [of d ws1 ws2] by (simp add: img_tag_head_Cons [symmetric])
  then show ?thesis
    using assms span_step_Some [of backslash "tl (img_tag_head d ws1 ws2 @ rest)" raw st]
    by (simp add: img_tag_head_Cons [symmetric])
qed

lemma not_blank_dropWhile: "rest \<noteq> [] \<Longrightarrow> \<not> is_blank (hd rest) \<Longrightarrow> dropWhile is_blank rest = rest"
  by (cases rest) auto

lemma quote_not_blank: "q = dquote \<or> q = squote \<Longrightarrow> \<not> is_blank q"
  by (auto simp: is_blank_def dquote_def squote_def tab_def)

lemma img_argument_blank_end:
  assumes "img_tag_parts d ws1 ws2" "list_all is_blank ws"
  shows "img_argument (img_tag_head d ws1 ws2 @ ws) = None"
proof -
  have dw: "dropWhile is_blank ws = []"
    using assms(2) by (simp add: list_all_iff)
  show ?thesis
    unfolding img_argument_tag [OF assms(1)] dw by simp
qed

lemma img_argument_unquoted_empty:
  assumes "img_tag_parts d ws1 ws2" "t = CHR '','' \<or> t = CHR '')''"
  shows "img_argument (img_tag_head d ws1 ws2 @ t # rest) = None"
proof -
  have "\<not> is_blank t" "t \<noteq> dquote" "t \<noteq> squote"
    using assms(2) by (auto simp: is_blank_def tab_def dquote_def squote_def)
  then show ?thesis
    using assms(2) by (auto simp: img_argument_tag [OF assms(1)])
qed

lemma img_argument_quoted_empty:
  assumes "img_tag_parts d ws1 ws2" "q = dquote \<or> q = squote"
  shows "img_argument (img_tag_head d ws1 ws2 @ q # q # rest) = None"
    and "img_argument (img_tag_head d ws1 ws2 @ [q]) = None"
  using quote_not_blank [OF assms(2)] assms(2)
  by (auto simp: img_argument_tag [OF assms(1)])

lemma img_argument_quoted:
  assumes "img_tag_parts d ws1 ws2" "q = dquote \<or> q = squote" "arg \<noteq> []" "q \<notin> set arg"
  shows "img_argument (img_tag_head d ws1 ws2 @ q # arg @ q # rest) = Some arg"
    and "img_argument (img_tag_head d ws1 ws2 @ q # arg) = Some arg"
proof -
  have a: "takeWhile (\<lambda>c. c \<noteq> q) (arg @ q # rest) = arg"
    using assms(4) by (subst takeWhile_append2) auto
  have b: "takeWhile (\<lambda>c. c \<noteq> q) arg = arg"
    using assms(4) by (auto simp: takeWhile_eq_all_conv)
  show "img_argument (img_tag_head d ws1 ws2 @ q # arg @ q # rest) = Some arg"
    using quote_not_blank [OF assms(2)] assms(2,3)
    by (simp add: img_argument_tag [OF assms(1)] a)
  show "img_argument (img_tag_head d ws1 ws2 @ q # arg) = Some arg"
    using quote_not_blank [OF assms(2)] assms(2,3)
    by (simp add: img_argument_tag [OF assms(1)] b)
qed

lemma img_argument_unquoted:
  assumes "img_tag_parts d ws1 ws2" "plain_argument arg"
  shows "t = CHR '','' \<or> t = CHR '')'' \<Longrightarrow>
           img_argument (img_tag_head d ws1 ws2 @ arg @ t # rest) = Some arg"
    and "img_argument (img_tag_head d ws1 ws2 @ arg) = Some arg"
proof -
  obtain a as where arg: "arg = a # as"
    using assms(2) by (cases arg) (auto simp: plain_argument_def)
  have a: "\<not> is_blank a" "a \<noteq> dquote" "a \<noteq> squote" "a \<noteq> CHR '',''" "a \<noteq> CHR '')''"
    and as: "\<forall>c\<in>set as. c \<noteq> CHR '','' \<and> c \<noteq> CHR '')''"
    using assms(2) by (auto simp: plain_argument_def arg list_all_iff)
  have t1: "takeWhile (\<lambda>c. c \<noteq> CHR '','' \<and> c \<noteq> CHR '')'') (as @ t # rest) = as"
    if "t = CHR '','' \<or> t = CHR '')''"
    using as that by (subst takeWhile_append2) auto
  have t2: "takeWhile (\<lambda>c. c \<noteq> CHR '','' \<and> c \<noteq> CHR '')'') as = as"
    using as by (simp add: takeWhile_eq_all_conv)
  show "img_argument (img_tag_head d ws1 ws2 @ arg @ t # rest) = Some arg"
    if "t = CHR '','' \<or> t = CHR '')''"
    using a by (simp add: img_argument_tag [OF assms(1)] arg t1 [OF that])
  show "img_argument (img_tag_head d ws1 ws2 @ arg) = Some arg"
    using a by (simp add: img_argument_tag [OF assms(1)] arg t2)
qed

lemma push_path_empty: "strip_matching_quotes raw = [] \<Longrightarrow> push_path raw st = st"
  by (simp add: push_path_def)

lemma img_occurrences_suffix: "\<exists>ys. img_occurrences (pre @ s) = ys @ img_occurrences s"
proof (induction pre)
  case Nil
  show ?case by simp
next
  case (Cons c pre)
  then obtain ys where "img_occurrences (pre @ s) = ys @ img_occurrences s" by blast
  then show ?case by simp
qed

lemma occurrence_in_result:
  assumes "img_argument s = Some arg" "4 < length s" "strip_matching_quotes arg \<noteq> []"
  shows "strip_matching_quotes arg \<in> set (fst (collect_img_paths_from_span (pre @ s) ([], {})))"
proof -
  obtain c cs where s: "s = c # cs"
    using assms(2) by (cases s) auto
  have "strip_matching_quotes arg \<in> set (img_occurrences s)"
    using assms(1,2) unfolding s by simp
  moreover obtain ys where "img_occurrences (pre @ s) = ys @ img_occurrences s"
    using img_occurrences_suffix by blast
  ultimately have "strip_matching_quotes arg \<in> set (img_occurrences (pre @ s))"
    by simp
  then show ?thesis
    using assms(3) collect_img_paths_from_span_general [of "pre @ s" "[]"] by simp
qed


text \<open>
  Claim C7. Scanning a span from an empty result returns the stripped arguments of the
  tag occurrences that are not empty, in the order of their first occurrence and without
  repetition (\<open>rev \<circ> remdups \<circ> rev\<close> keeps the first of equal entries). A terminated
  occurrence anywhere in the span, with or without a digit from 1 to 4 in front of
  \<^verbatim>\<open>img\<close>, unquoted up to a comma or closing parenthesis or between two equal quotes,
  contributes exactly its stripped argument. The stripped argument is the argument
  without the white space around it and without one pair of equal quotes enclosing what
  is left, trimmed again: an argument made of white space, a core and white space,
  where the core neither starts nor ends with white space and is not itself enclosed in
  quotes, contributes exactly the core, whether the occurrence is unquoted or quoted;
  a core enclosed in one pair of quotes, with white space on either side of the quotes,
  strips to the core; white space alone strips to nothing. The span
  \<^verbatim>\<open>\img(a.png)...\2img("a.png")...\img(b.jpg)\<close> yields \<^verbatim>\<open>a.png\<close>, \<^verbatim>\<open>b.jpg\<close>, and so
  does \<^verbatim>\<open>\img(a.png )...\2img(" a.png")...\img(" 'b.jpg' ")\<close>, whose first two arguments
  differ before stripping and are one entry after it.
\<close>

theorem collect_img_paths_from_span_first_occurrences:
  "fst (collect_img_paths_from_span s ([], {}))
     = rev (remdups (rev (filter (\<lambda>p. p \<noteq> []) (img_occurrences s))))
   \<and> (img_tag_parts d ws1 ws2 \<and> plain_argument arg \<and> (t = CHR '','' \<or> t = CHR '')'')
        \<and> strip_matching_quotes arg \<noteq> []
      \<longrightarrow> img_argument (img_tag_head d ws1 ws2 @ arg @ t # rest) = Some arg
          \<and> strip_matching_quotes arg
              \<in> set (fst (collect_img_paths_from_span
                             (pre @ img_tag_head d ws1 ws2 @ arg @ t # rest) ([], {}))))
   \<and> (img_tag_parts d ws1 ws2 \<and> (q = dquote \<or> q = squote) \<and> qarg \<noteq> [] \<and> q \<notin> set qarg
        \<and> strip_matching_quotes qarg \<noteq> []
      \<longrightarrow> img_argument (img_tag_head d ws1 ws2 @ q # qarg @ q # rest) = Some qarg
          \<and> strip_matching_quotes qarg
              \<in> set (fst (collect_img_paths_from_span
                             (pre @ img_tag_head d ws1 ws2 @ q # qarg @ q # rest) ([], {}))))
   \<and> (img_tag_parts d ws1 ws2 \<and> plain_argument (l @ core @ r) \<and> (t = CHR '','' \<or> t = CHR '')'')
        \<and> list_all isspace l \<and> list_all isspace r
        \<and> core \<noteq> [] \<and> \<not> isspace (hd core) \<and> \<not> isspace (last core) \<and> \<not> quoted core
      \<longrightarrow> strip_matching_quotes (l @ core @ r) = core
          \<and> core \<in> set (fst (collect_img_paths_from_span
                             (pre @ img_tag_head d ws1 ws2 @ (l @ core @ r) @ t # rest) ([], {}))))
   \<and> (img_tag_parts d ws1 ws2 \<and> (q = dquote \<or> q = squote) \<and> q \<notin> set (l @ core @ r)
        \<and> list_all isspace l \<and> list_all isspace r
        \<and> core \<noteq> [] \<and> \<not> isspace (hd core) \<and> \<not> isspace (last core) \<and> \<not> quoted core
      \<longrightarrow> strip_matching_quotes (l @ core @ r) = core
          \<and> core \<in> set (fst (collect_img_paths_from_span
                             (pre @ img_tag_head d ws1 ws2 @ q # (l @ core @ r) @ q # rest) ([], {}))))
   \<and> (list_all isspace l \<and> list_all isspace r \<and> (q2 = dquote \<or> q2 = squote)
        \<and> list_all isspace l2 \<and> list_all isspace r2
        \<and> inner \<noteq> [] \<and> \<not> isspace (hd inner) \<and> \<not> isspace (last inner)
      \<longrightarrow> strip_matching_quotes (l @ q2 # (l2 @ inner @ r2) @ q2 # r) = inner)
   \<and> (list_all isspace blanks \<longrightarrow> strip_matching_quotes blanks = [])
   \<and> fst (collect_img_paths_from_span
            ([backslash] @ ''img(a.png)...'' @ [backslash] @ ''2img('' @ [dquote] @ ''a.png''
               @ [dquote] @ '')...'' @ [backslash] @ ''img(b.jpg)'') ([], {}))
       = [''a.png'', ''b.jpg'']
   \<and> fst (collect_img_paths_from_span
            ([backslash] @ ''img(a.png )...'' @ [backslash] @ ''2img('' @ [dquote] @ '' a.png''
               @ [dquote] @ '')...'' @ [backslash] @ ''img('' @ [dquote] @ '' '' @ [squote]
               @ ''b.jpg'' @ [squote] @ '' '' @ [dquote] @ '')'') ([], {}))
       = [''a.png'', ''b.jpg'']"
proof (intro conjI impI)
  show "fst (collect_img_paths_from_span s ([], {}))
          = rev (remdups (rev (filter (\<lambda>p. p \<noteq> []) (img_occurrences s))))"
    using collect_img_paths_from_span_general [of s "[]"] by simp
next
  assume h: "img_tag_parts d ws1 ws2 \<and> plain_argument arg \<and> (t = CHR '','' \<or> t = CHR '')'')
               \<and> strip_matching_quotes arg \<noteq> []"
  then show a: "img_argument (img_tag_head d ws1 ws2 @ arg @ t # rest) = Some arg"
    by (simp add: img_argument_unquoted(1))
  have "4 < length (img_tag_head d ws1 ws2 @ arg @ t # rest)"
    using length_img_tag_head [of d ws1 ws2] by simp
  with a h show "strip_matching_quotes arg
      \<in> set (fst (collect_img_paths_from_span
                     (pre @ img_tag_head d ws1 ws2 @ arg @ t # rest) ([], {})))"
    by (intro occurrence_in_result) auto
next
  assume h: "img_tag_parts d ws1 ws2 \<and> (q = dquote \<or> q = squote) \<and> qarg \<noteq> [] \<and> q \<notin> set qarg
               \<and> strip_matching_quotes qarg \<noteq> []"
  then show a: "img_argument (img_tag_head d ws1 ws2 @ q # qarg @ q # rest) = Some qarg"
    by (simp add: img_argument_quoted(1))
  have "4 < length (img_tag_head d ws1 ws2 @ q # qarg @ q # rest)"
    using length_img_tag_head [of d ws1 ws2] by simp
  with a h show "strip_matching_quotes qarg
      \<in> set (fst (collect_img_paths_from_span
                     (pre @ img_tag_head d ws1 ws2 @ q # qarg @ q # rest) ([], {})))"
    by (intro occurrence_in_result) auto
next
  assume h: "img_tag_parts d ws1 ws2 \<and> plain_argument (l @ core @ r) \<and> (t = CHR '','' \<or> t = CHR '')'')
        \<and> list_all isspace l \<and> list_all isspace r
        \<and> core \<noteq> [] \<and> \<not> isspace (hd core) \<and> \<not> isspace (last core) \<and> \<not> quoted core"
  then have sp: "list_all isspace l" "list_all isspace r" "core \<noteq> []" "\<not> isspace (hd core)"
      "\<not> isspace (last core)" "\<not> quoted core"
    by simp_all
  show st: "strip_matching_quotes (l @ core @ r) = core"
    using sp by (rule strip_matching_quotes_core)
  from h have a: "img_argument (img_tag_head d ws1 ws2 @ (l @ core @ r) @ t # rest)
      = Some (l @ core @ r)"
    by (simp only: img_argument_unquoted(1))
  have len: "4 < length (img_tag_head d ws1 ws2 @ (l @ core @ r) @ t # rest)"
    using length_img_tag_head [of d ws1 ws2] by simp
  have ne: "strip_matching_quotes (l @ core @ r) \<noteq> []"
    unfolding st by (rule sp(3))
  have "strip_matching_quotes (l @ core @ r)
      \<in> set (fst (collect_img_paths_from_span
                     (pre @ img_tag_head d ws1 ws2 @ (l @ core @ r) @ t # rest) ([], {})))"
    using a len ne by (rule occurrence_in_result)
  then show "core \<in> set (fst (collect_img_paths_from_span
                             (pre @ img_tag_head d ws1 ws2 @ (l @ core @ r) @ t # rest) ([], {})))"
    unfolding st .
next
  assume h: "img_tag_parts d ws1 ws2 \<and> (q = dquote \<or> q = squote) \<and> q \<notin> set (l @ core @ r)
        \<and> list_all isspace l \<and> list_all isspace r
        \<and> core \<noteq> [] \<and> \<not> isspace (hd core) \<and> \<not> isspace (last core) \<and> \<not> quoted core"
  then have sp: "list_all isspace l" "list_all isspace r" "core \<noteq> []" "\<not> isspace (hd core)"
      "\<not> isspace (last core)" "\<not> quoted core"
    by simp_all
  show st: "strip_matching_quotes (l @ core @ r) = core"
    using sp by (rule strip_matching_quotes_core)
  from h sp(3) have a: "img_argument (img_tag_head d ws1 ws2 @ q # (l @ core @ r) @ q # rest)
      = Some (l @ core @ r)"
    by (intro img_argument_quoted(1)) simp_all
  have len: "4 < length (img_tag_head d ws1 ws2 @ q # (l @ core @ r) @ q # rest)"
    using length_img_tag_head [of d ws1 ws2] by simp
  have ne: "strip_matching_quotes (l @ core @ r) \<noteq> []"
    unfolding st by (rule sp(3))
  have "strip_matching_quotes (l @ core @ r)
      \<in> set (fst (collect_img_paths_from_span
                     (pre @ img_tag_head d ws1 ws2 @ q # (l @ core @ r) @ q # rest) ([], {})))"
    using a len ne by (rule occurrence_in_result)
  then show "core \<in> set (fst (collect_img_paths_from_span
                             (pre @ img_tag_head d ws1 ws2 @ q # (l @ core @ r) @ q # rest) ([], {})))"
    unfolding st .
next
  assume h: "list_all isspace l \<and> list_all isspace r \<and> (q2 = dquote \<or> q2 = squote)
        \<and> list_all isspace l2 \<and> list_all isspace r2
        \<and> inner \<noteq> [] \<and> \<not> isspace (hd inner) \<and> \<not> isspace (last inner)"
  then have "trim_copy (l2 @ inner @ r2) = inner"
    by (intro trim_copy_core) simp_all
  with h show "strip_matching_quotes (l @ q2 # (l2 @ inner @ r2) @ q2 # r) = inner"
    by (intro strip_matching_quotes_pair) simp_all
next
  assume "list_all isspace blanks"
  then show "strip_matching_quotes blanks = []"
    by (rule strip_matching_quotes_blank)
next
  show "fst (collect_img_paths_from_span
            ([backslash] @ ''img(a.png)...'' @ [backslash] @ ''2img('' @ [dquote] @ ''a.png''
               @ [dquote] @ '')...'' @ [backslash] @ ''img(b.jpg)'') ([], {}))
       = [''a.png'', ''b.jpg'']"
    by code_simp
next
  show "fst (collect_img_paths_from_span
            ([backslash] @ ''img(a.png )...'' @ [backslash] @ ''2img('' @ [dquote] @ '' a.png''
               @ [dquote] @ '')...'' @ [backslash] @ ''img('' @ [dquote] @ '' '' @ [squote]
               @ ''b.jpg'' @ [squote] @ '' '' @ [dquote] @ '')'') ([], {}))
       = [''a.png'', ''b.jpg'']"
    by code_simp
qed

text \<open>
  A use of the theorem on the texts \<^verbatim>\<open>{\2img ( x.png, 3)}\<close>, \<^verbatim>\<open>{\2img ( "x y.png" 3)}\<close>,
  \<^verbatim>\<open>{\2img ( a.png , 3)}\<close> and \<^verbatim>\<open>{\2img ( "a.png " 3)}\<close>, on the path \<^verbatim>\<open>' b.jpg ' \<close>
  and on two spaces.
\<close>

theorem collect_img_paths_from_span_first_occurrences_witness:
  "(img_tag_parts ''2'' '' '' '' '' \<and> plain_argument ''x.png'' \<and> (CHR '','' = CHR '','' \<or> CHR '','' = CHR '')'')
     \<and> strip_matching_quotes ''x.png'' \<noteq> [])
   \<and> (img_argument (img_tag_head ''2'' '' '' '' '' @ ''x.png'' @ CHR '','' # '' 3)}'') = Some ''x.png''
     \<and> strip_matching_quotes ''x.png''
         \<in> set (fst (collect_img_paths_from_span
              (''{'' @ img_tag_head ''2'' '' '' '' '' @ ''x.png'' @ CHR '','' # '' 3)}'') ([], {}))))
   \<and> (img_tag_parts ''2'' '' '' '' '' \<and> (dquote = dquote \<or> dquote = squote)
     \<and> ''x y.png'' \<noteq> [] \<and> dquote \<notin> set ''x y.png''
     \<and> strip_matching_quotes ''x y.png'' \<noteq> [])
   \<and> (img_argument (img_tag_head ''2'' '' '' '' '' @ dquote # ''x y.png'' @ dquote # '' 3)}'') = Some ''x y.png''
     \<and> strip_matching_quotes ''x y.png''
         \<in> set (fst (collect_img_paths_from_span
              (''{'' @ img_tag_head ''2'' '' '' '' '' @ dquote # ''x y.png'' @ dquote # '' 3)}'') ([], {}))))
   \<and> (img_tag_parts ''2'' '' '' '' '' \<and> plain_argument ([] @ ''a.png'' @ '' '')
     \<and> (CHR '','' = CHR '','' \<or> CHR '','' = CHR '')'')
     \<and> list_all isspace [] \<and> list_all isspace '' ''
     \<and> ''a.png'' \<noteq> [] \<and> \<not> isspace (hd ''a.png'') \<and> \<not> isspace (last ''a.png'')
     \<and> \<not> quoted ''a.png'')
   \<and> (strip_matching_quotes ([] @ ''a.png'' @ '' '') = ''a.png''
     \<and> ''a.png'' \<in> set (fst (collect_img_paths_from_span
              (''{'' @ img_tag_head ''2'' '' '' '' '' @ ([] @ ''a.png'' @ '' '') @ CHR '','' # '' 3)}'') ([], {}))))
   \<and> (img_tag_parts ''2'' '' '' '' '' \<and> (dquote = dquote \<or> dquote = squote)
     \<and> dquote \<notin> set ([] @ ''a.png'' @ '' '')
     \<and> list_all isspace [] \<and> list_all isspace '' ''
     \<and> ''a.png'' \<noteq> [] \<and> \<not> isspace (hd ''a.png'') \<and> \<not> isspace (last ''a.png'')
     \<and> \<not> quoted ''a.png'')
   \<and> (strip_matching_quotes ([] @ ''a.png'' @ '' '') = ''a.png''
     \<and> ''a.png'' \<in> set (fst (collect_img_paths_from_span
              (''{'' @ img_tag_head ''2'' '' '' '' '' @ dquote # ([] @ ''a.png'' @ '' '') @ dquote # '' 3)}'') ([], {}))))
   \<and> (list_all isspace [] \<and> list_all isspace '' '' \<and> (squote = dquote \<or> squote = squote)
     \<and> list_all isspace '' '' \<and> list_all isspace '' ''
     \<and> ''b.jpg'' \<noteq> [] \<and> \<not> isspace (hd ''b.jpg'') \<and> \<not> isspace (last ''b.jpg''))
   \<and> strip_matching_quotes ([] @ squote # ('' '' @ ''b.jpg'' @ '' '') @ squote # '' '') = ''b.jpg''
   \<and> list_all isspace ''  ''
   \<and> strip_matching_quotes ''  '' = []"
proof -
  have parts: "img_tag_parts ''2'' '' '' '' ''"
    by (simp add: img_tag_parts_def is_blank_def is_layer_digit_def)
  have plain: "plain_argument ''x.png''" "plain_argument ([] @ ''a.png'' @ '' '')"
    by (simp_all add: plain_argument_def is_blank_def tab_def dquote_def squote_def)
  have free: "dquote \<notin> set ''x y.png''" "dquote \<notin> set ([] @ ''a.png'' @ '' '')"
    by (simp_all add: dquote_def)
  have kept: "strip_matching_quotes ''x.png'' \<noteq> []" "strip_matching_quotes ''x y.png'' \<noteq> []"
    by code_simp+
  have sp: "list_all isspace [] \<and> list_all isspace '' ''
     \<and> ''a.png'' \<noteq> [] \<and> \<not> isspace (hd ''a.png'') \<and> \<not> isspace (last ''a.png'')
     \<and> \<not> quoted ''a.png''"
    by (simp add: isspace_def quoted_def dquote_def squote_def)
  have hyp2: "img_tag_parts ''2'' '' '' '' '' \<and> plain_argument ''x.png'' \<and> (CHR '','' = CHR '','' \<or> CHR '','' = CHR '')'')
     \<and> strip_matching_quotes ''x.png'' \<noteq> []"
    using parts plain(1) kept(1) by (intro conjI) simp_all
  have hyp3: "img_tag_parts ''2'' '' '' '' '' \<and> (dquote = dquote \<or> dquote = squote)
     \<and> ''x y.png'' \<noteq> [] \<and> dquote \<notin> set ''x y.png''
     \<and> strip_matching_quotes ''x y.png'' \<noteq> []"
    using parts free(1) kept(2) by (intro conjI) simp_all
  have hypA: "img_tag_parts ''2'' '' '' '' '' \<and> plain_argument ([] @ ''a.png'' @ '' '')
     \<and> (CHR '','' = CHR '','' \<or> CHR '','' = CHR '')'')
     \<and> list_all isspace [] \<and> list_all isspace '' ''
     \<and> ''a.png'' \<noteq> [] \<and> \<not> isspace (hd ''a.png'') \<and> \<not> isspace (last ''a.png'')
     \<and> \<not> quoted ''a.png''"
    using parts plain(2) sp by (intro conjI) simp_all
  have hypB: "img_tag_parts ''2'' '' '' '' '' \<and> (dquote = dquote \<or> dquote = squote)
     \<and> dquote \<notin> set ([] @ ''a.png'' @ '' '')
     \<and> list_all isspace [] \<and> list_all isspace '' ''
     \<and> ''a.png'' \<noteq> [] \<and> \<not> isspace (hd ''a.png'') \<and> \<not> isspace (last ''a.png'')
     \<and> \<not> quoted ''a.png''"
    using parts free(2) sp by (intro conjI) simp_all
  have hypC: "list_all isspace [] \<and> list_all isspace '' '' \<and> (squote = dquote \<or> squote = squote)
     \<and> list_all isspace '' '' \<and> list_all isspace '' ''
     \<and> ''b.jpg'' \<noteq> [] \<and> \<not> isspace (hd ''b.jpg'') \<and> \<not> isspace (last ''b.jpg'')"
    by (simp add: isspace_def)
  have hypD: "list_all isspace ''  ''"
    by (simp add: isspace_def)
  note all = collect_img_paths_from_span_first_occurrences
      [of "[]" "''2''" "'' ''" "'' ''" "''x.png''" "CHR '',''" "'' 3)}''" "''{''" dquote "''x y.png''"
          "[]" "''a.png''" "'' ''" squote "'' ''" "'' ''" "''b.jpg''" "''  ''"]
  have con2: "img_argument (img_tag_head ''2'' '' '' '' '' @ ''x.png'' @ CHR '','' # '' 3)}'') = Some ''x.png''
     \<and> strip_matching_quotes ''x.png''
         \<in> set (fst (collect_img_paths_from_span
              (''{'' @ img_tag_head ''2'' '' '' '' '' @ ''x.png'' @ CHR '','' # '' 3)}'') ([], {})))"
    using all [THEN conjunct2, THEN conjunct1] hyp2 by (rule mp)
  have con3: "img_argument (img_tag_head ''2'' '' '' '' '' @ dquote # ''x y.png'' @ dquote # '' 3)}'') = Some ''x y.png''
     \<and> strip_matching_quotes ''x y.png''
         \<in> set (fst (collect_img_paths_from_span
              (''{'' @ img_tag_head ''2'' '' '' '' '' @ dquote # ''x y.png'' @ dquote # '' 3)}'') ([], {})))"
    using all [THEN conjunct2, THEN conjunct2, THEN conjunct1] hyp3 by (rule mp)
  have conA: "strip_matching_quotes ([] @ ''a.png'' @ '' '') = ''a.png''
     \<and> ''a.png'' \<in> set (fst (collect_img_paths_from_span
              (''{'' @ img_tag_head ''2'' '' '' '' '' @ ([] @ ''a.png'' @ '' '') @ CHR '','' # '' 3)}'') ([], {})))"
    using all [THEN conjunct2, THEN conjunct2, THEN conjunct2, THEN conjunct1] hypA by (rule mp)
  have conB: "strip_matching_quotes ([] @ ''a.png'' @ '' '') = ''a.png''
     \<and> ''a.png'' \<in> set (fst (collect_img_paths_from_span
              (''{'' @ img_tag_head ''2'' '' '' '' '' @ dquote # ([] @ ''a.png'' @ '' '') @ dquote # '' 3)}'') ([], {})))"
    using all [THEN conjunct2, THEN conjunct2, THEN conjunct2, THEN conjunct2, THEN conjunct1]
      hypB by (rule mp)
  have conC: "strip_matching_quotes ([] @ squote # ('' '' @ ''b.jpg'' @ '' '') @ squote # '' '') = ''b.jpg''"
    using all [THEN conjunct2, THEN conjunct2, THEN conjunct2, THEN conjunct2, THEN conjunct2,
        THEN conjunct1] hypC by (rule mp)
  have conD: "strip_matching_quotes ''  '' = []"
    using all [THEN conjunct2, THEN conjunct2, THEN conjunct2, THEN conjunct2, THEN conjunct2,
        THEN conjunct2, THEN conjunct1] hypD by (rule mp)
  show ?thesis
    using hyp2 con2 hyp3 con3 hypA conA hypB conB hypC conC hypD conD
    by - ((rule conjI, assumption)+, assumption)
qed

text \<open>
  Claim C3, as the code has it. An occurrence with an empty argument contributes nothing:
  only blanks (or nothing) behind the parenthesis, an unquoted argument that ends at once
  at a comma or closing parenthesis, a quote followed at once by the same quote or by the
  end of the span; the scan goes on from the next character with the result unchanged.
  An argument that strips to the empty string is not pushed either. An unterminated
  argument is not rejected: a quoted argument without closing quote and an unquoted
  argument without comma or closing parenthesis run to the end of the span and are
  pushed (stripped, if not empty and not yet seen) like a terminated one.
\<close>

theorem collect_img_paths_from_span_empty_or_unterminated:
  assumes "img_tag_parts d ws1 ws2"
  shows "(list_all is_blank ws \<longrightarrow>
            collect_img_paths_from_span (img_tag_head d ws1 ws2 @ ws) st
              = collect_img_paths_from_span (tl (img_tag_head d ws1 ws2 @ ws)) st)
     \<and> (t = CHR '','' \<or> t = CHR '')'' \<longrightarrow>
            collect_img_paths_from_span (img_tag_head d ws1 ws2 @ t # rest) st
              = collect_img_paths_from_span (tl (img_tag_head d ws1 ws2 @ t # rest)) st)
     \<and> (q = dquote \<or> q = squote \<longrightarrow>
            collect_img_paths_from_span (img_tag_head d ws1 ws2 @ q # q # rest) st
              = collect_img_paths_from_span (tl (img_tag_head d ws1 ws2 @ q # q # rest)) st
          \<and> collect_img_paths_from_span (img_tag_head d ws1 ws2 @ [q]) st
              = collect_img_paths_from_span (tl (img_tag_head d ws1 ws2 @ [q])) st)
     \<and> (strip_matching_quotes raw = [] \<longrightarrow> push_path raw st = st)
     \<and> ((q = dquote \<or> q = squote) \<and> qarg \<noteq> [] \<and> q \<notin> set qarg \<longrightarrow>
            collect_img_paths_from_span (img_tag_head d ws1 ws2 @ q # qarg) st
              = collect_img_paths_from_span (tl (img_tag_head d ws1 ws2 @ q # qarg))
                  (push_path qarg st))
     \<and> (plain_argument arg \<longrightarrow>
            collect_img_paths_from_span (img_tag_head d ws1 ws2 @ arg) st
              = collect_img_paths_from_span (tl (img_tag_head d ws1 ws2 @ arg))
                  (push_path arg st))"
proof (intro conjI impI)
  assume "list_all is_blank ws"
  then show "collect_img_paths_from_span (img_tag_head d ws1 ws2 @ ws) st
               = collect_img_paths_from_span (tl (img_tag_head d ws1 ws2 @ ws)) st"
    using assms by (intro tag_step_None img_argument_blank_end)
next
  assume "t = CHR '','' \<or> t = CHR '')''"
  then show "collect_img_paths_from_span (img_tag_head d ws1 ws2 @ t # rest) st
               = collect_img_paths_from_span (tl (img_tag_head d ws1 ws2 @ t # rest)) st"
    using assms by (intro tag_step_None img_argument_unquoted_empty)
next
  assume "q = dquote \<or> q = squote"
  then show "collect_img_paths_from_span (img_tag_head d ws1 ws2 @ q # q # rest) st
               = collect_img_paths_from_span (tl (img_tag_head d ws1 ws2 @ q # q # rest)) st"
    using assms by (intro tag_step_None img_argument_quoted_empty(1))
next
  assume "q = dquote \<or> q = squote"
  then show "collect_img_paths_from_span (img_tag_head d ws1 ws2 @ [q]) st
               = collect_img_paths_from_span (tl (img_tag_head d ws1 ws2 @ [q])) st"
    using assms by (intro tag_step_None img_argument_quoted_empty(2))
next
  assume "strip_matching_quotes raw = []"
  then show "push_path raw st = st"
    by (rule push_path_empty)
next
  assume "(q = dquote \<or> q = squote) \<and> qarg \<noteq> [] \<and> q \<notin> set qarg"
  then show "collect_img_paths_from_span (img_tag_head d ws1 ws2 @ q # qarg) st
               = collect_img_paths_from_span (tl (img_tag_head d ws1 ws2 @ q # qarg))
                   (push_path qarg st)"
    using assms by (intro tag_step_Some img_argument_quoted(2)) auto
next
  assume "plain_argument arg"
  then show "collect_img_paths_from_span (img_tag_head d ws1 ws2 @ arg) st
               = collect_img_paths_from_span (tl (img_tag_head d ws1 ws2 @ arg))
                   (push_path arg st)"
    using assms by (intro tag_step_Some img_argument_unquoted(2))
qed

text \<open>
  A use of the theorem: the iteration at \<^verbatim>\<open>\img( )\<close> leaves the result as it is, the
  iteration at the unterminated \<^verbatim>\<open>\img( abc\<close> pushes \<^verbatim>\<open>abc\<close>.
\<close>

theorem collect_img_paths_from_span_empty_or_unterminated_witness:
  "img_tag_parts [] [] '' '' \<and> plain_argument ''abc''
   \<and> collect_img_paths_from_span (img_tag_head [] [] '' '' @ '')'') ([], {})
       = collect_img_paths_from_span (tl (img_tag_head [] [] '' '' @ '')'')) ([], {})
   \<and> collect_img_paths_from_span (img_tag_head [] [] '' '' @ ''abc'') ([], {})
       = collect_img_paths_from_span (tl (img_tag_head [] [] '' '' @ ''abc''))
           (push_path ''abc'' ([], {}))"
proof -
  have parts: "img_tag_parts [] [] '' ''"
    by (simp add: img_tag_parts_def is_blank_def)
  have plain: "plain_argument ''abc''"
    by (simp add: plain_argument_def is_blank_def tab_def dquote_def squote_def)
  note cases = collect_img_paths_from_span_empty_or_unterminated
      [OF parts, of "[]" "([], {})" "CHR '')''" "[]" dquote "[]" "[]" "''abc''"]
  have empty: "collect_img_paths_from_span (img_tag_head [] [] '' '' @ '')'') ([], {})
       = collect_img_paths_from_span (tl (img_tag_head [] [] '' '' @ '')'')) ([], {})"
    using cases [THEN conjunct2, THEN conjunct1] by blast
  have open_end: "collect_img_paths_from_span (img_tag_head [] [] '' '' @ ''abc'') ([], {})
       = collect_img_paths_from_span (tl (img_tag_head [] [] '' '' @ ''abc''))
           (push_path ''abc'' ([], {}))"
    using cases [THEN conjunct2, THEN conjunct2, THEN conjunct2, THEN conjunct2, THEN conjunct2]
      plain by (rule mp)
  show ?thesis
    using parts plain empty open_end by blast
qed

text \<open>
  Claim C3 as stated fails for unterminated arguments: the spans \<^verbatim>\<open>\img("abc\<close> and
  \<^verbatim>\<open>\img(abc\<close> both yield the path \<^verbatim>\<open>abc\<close>.
\<close>

theorem collect_img_paths_from_span_unterminated_yields_path:
  "fst (collect_img_paths_from_span ([backslash] @ ''img('' @ [dquote] @ ''abc'') ([], {}))
     = [''abc'']
   \<and> fst (collect_img_paths_from_span ([backslash] @ ''img(abc'') ([], {})) = [''abc'']"
  by code_simp

section \<open>The line loop and its sections\<close>

lemma line_loop_fold: "line_loop data cur st = fold process_line (split_lines data cur) st"
  by (induction data arbitrary: cur st) auto

lemma split_lines_append:
  "split_lines (a @ CHR 0x0A # b) cur = split_lines a cur @ split_lines b []"
  by (induction a arbitrary: cur) auto

lemma line_loop_append:
  "line_loop (a @ CHR 0x0A # b) cur st = line_loop b [] (line_loop a cur st)"
  by (simp add: line_loop_fold split_lines_append)

lemma split_lines_single: "CHR 0x0A \<notin> set l \<Longrightarrow> split_lines l cur = [cur @ l]"
  by (induction l arbitrary: cur) auto

lemma img_starts_with_icase_iff:
  "img_starts_with_icase s p \<longleftrightarrow>
     length p \<le> length s \<and> to_lower_copy (take (length p) s) = p"
  by (induction s p rule: img_starts_with_icase.induct)
     (auto simp: to_lower_copy_def)

lemma img_starts_with_icase_same_length:
  "length name = length p \<Longrightarrow> img_starts_with_icase name p \<longleftrightarrow> to_lower_copy name = p"
  by (simp add: img_starts_with_icase_iff)

lemma starts_with_events:
  "length name = 6 \<and> img_starts_with_icase name ''events'' \<longleftrightarrow> to_lower_copy name = ''events''"
proof -
  have "length ''events'' = 6"
    by simp
  then have six: "length name = 6 \<longleftrightarrow> length name = length ''events''"
    by (simp only:)
  have len: "to_lower_copy name = ''events'' \<Longrightarrow> length name = length ''events''"
    by (metis length_map to_lower_copy_def)
  show ?thesis
    unfolding six using len img_starts_with_icase_same_length [of name "''events''"] by blast
qed

lemma process_line_header:
  assumes "is_section_header (normalize_line raw)"
  shows "process_line raw st =
           st\<lparr>saw_section := True,
              in_events := (to_lower_copy (section_name (normalize_line raw)) = ''events'')\<rparr>"
  using assms by (auto simp: process_line_def Let_def starts_with_events is_section_header_def)

lemma scan_dialogue_line_Nil: "scan_dialogue_line [] st = st"
  by (simp add: scan_dialogue_line_def)

lemma process_line_other:
  assumes "\<not> is_section_header (normalize_line raw)"
  shows "process_line raw st =
           (if saw_section st \<and> \<not> in_events st then st
            else scan_dialogue_line (normalize_line raw) st)"
  using assms by (simp add: process_line_def Let_def scan_dialogue_line_Nil)

lemma scan_dialogue_line_flags:
  "saw_section (scan_dialogue_line line st) = saw_section st"
  "in_events (scan_dialogue_line line st) = in_events st"
  by (simp_all add: scan_dialogue_line_def split: prod.splits)

lemma fold_out_of_scope:
  assumes "list_all (\<lambda>l. \<not> is_section_header (normalize_line l)) ls"
    and "saw_section st" "\<not> in_events st"
  shows "fold process_line ls st = st"
  using assms by (induction ls) (simp_all add: process_line_other)

lemma fold_in_scope:
  assumes "list_all (\<lambda>l. \<not> is_section_header (normalize_line l)) ls"
    and "\<not> saw_section st \<or> in_events st"
  shows "fold process_line ls st = fold (\<lambda>l. scan_dialogue_line (normalize_line l)) ls st"
  using assms
proof (induction ls arbitrary: st)
  case Nil
  show ?case by simp
next
  case (Cons l ls)
  have step: "process_line l st = scan_dialogue_line (normalize_line l) st"
    using Cons.prems by (auto simp: process_line_other)
  have "\<not> saw_section (scan_dialogue_line (normalize_line l) st)
          \<or> in_events (scan_dialogue_line (normalize_line l) st)"
    using Cons.prems(2) by (simp add: scan_dialogue_line_flags)
  then show ?case
    using Cons.IH [of "scan_dialogue_line (normalize_line l) st"] Cons.prems(1)
    by (simp add: step)
qed

lemma line_loop_single:
  assumes "CHR 0x0A \<notin> set l"
  shows "line_loop l [] st = process_line l st"
  using assms by (simp add: line_loop_fold split_lines_single)

lemma line_loop_section:
  assumes "CHR 0x0A \<notin> set hdr" "is_section_header (normalize_line hdr)"
  shows "line_loop (pre @ CHR 0x0A # hdr @ CHR 0x0A # body) [] st =
           fold process_line (split_lines body [])
             ((line_loop pre [] st)\<lparr>saw_section := True,
                 in_events := (to_lower_copy (section_name (normalize_line hdr)) = ''events'')\<rparr>)"
proof -
  have "line_loop (pre @ CHR 0x0A # hdr @ CHR 0x0A # body) [] st
          = line_loop (hdr @ CHR 0x0A # body) [] (line_loop pre [] st)"
    by (rule line_loop_append)
  also have "\<dots> = line_loop body [] (line_loop hdr [] (line_loop pre [] st))"
    by (rule line_loop_append)
  also have "line_loop hdr [] (line_loop pre [] st) = process_line hdr (line_loop pre [] st)"
    using assms(1) by (rule line_loop_single)
  also have "\<dots> = (line_loop pre [] st)\<lparr>saw_section := True,
                 in_events := (to_lower_copy (section_name (normalize_line hdr)) = ''events'')\<rparr>"
    using assms(2) by (rule process_line_header)
  finally show ?thesis
    by (simp add: line_loop_fold)
qed

lemma paths_scan_dialogue_line:
  "paths (scan_dialogue_line line st) =
     (if 9 \<le> length line \<and> to_lower_copy (take 9 line) = ''dialogue:''
      then fst (collect_img_paths_from_span line (paths st, seen st)) else paths st)"
proof -
  have "length ''dialogue:'' = 9"
    by simp
  then have "img_starts_with_icase line ''dialogue:''
      \<longleftrightarrow> 9 \<le> length line \<and> to_lower_copy (take 9 line) = ''dialogue:''"
    unfolding img_starts_with_icase_iff by (simp only:)
  then show ?thesis
    by (simp add: scan_dialogue_line_def split: prod.splits)
qed

text \<open>
  Claim C6. Section headers are tracked, and the name is compared without regard to case.
  For a block of lines without header lines: before any header every line of the block
  is handed to the Dialogue scan; after a header whose name is \<^verbatim>\<open>events\<close> in any case the
  block is scanned as well, continuing from what was found before; after a header with
  any other name the block contributes nothing. The Dialogue scan looks only at lines
  that start with \<^verbatim>\<open>dialogue:\<close> in any case. A tag under \<^verbatim>\<open>[V4+ Styles]\<close> is not returned,
  the same line without a header or under \<^verbatim>\<open>[ EVENTS ]\<close> is.
\<close>

theorem collect_img_paths_sections:
  assumes "list_all (\<lambda>l. \<not> is_section_header (normalize_line l)) (split_lines body [])"
  shows "collect_img_paths body
           = paths (fold (\<lambda>l. scan_dialogue_line (normalize_line l)) (split_lines body []) scan_init)
     \<and> (CHR 0x0A \<notin> set hdr \<and> is_section_header (normalize_line hdr)
          \<and> to_lower_copy (section_name (normalize_line hdr)) = ''events''
        \<longrightarrow> collect_img_paths (pre @ CHR 0x0A # hdr @ CHR 0x0A # body)
              = paths (fold (\<lambda>l. scan_dialogue_line (normalize_line l)) (split_lines body [])
                        ((line_loop pre [] scan_init)\<lparr>saw_section := True, in_events := True\<rparr>)))
     \<and> (CHR 0x0A \<notin> set hdr \<and> is_section_header (normalize_line hdr)
          \<and> to_lower_copy (section_name (normalize_line hdr)) \<noteq> ''events''
        \<longrightarrow> collect_img_paths (pre @ CHR 0x0A # hdr @ CHR 0x0A # body) = collect_img_paths pre)
     \<and> paths (scan_dialogue_line line st)
          = (if 9 \<le> length line \<and> to_lower_copy (take 9 line) = ''dialogue:''
             then fst (collect_img_paths_from_span line (paths st, seen st)) else paths st)
     \<and> collect_img_paths (''[V4+ Styles]'' @ [CHR 0x0A] @ ''Dialogue: 0,{'' @ [backslash]
                             @ ''img(x.png)}'') = []
     \<and> collect_img_paths (''Dialogue: 0,{'' @ [backslash] @ ''img(x.png)}'') = [''x.png'']
     \<and> collect_img_paths (''[ EVENTS ]'' @ [CHR 0x0D, CHR 0x0A] @ ''dialogue: 0,{'' @ [backslash]
                             @ ''img(x.png)}'') = [''x.png'']"
proof (intro conjI impI)
  have "\<not> saw_section scan_init \<or> in_events scan_init"
    by (simp add: scan_init_def)
  with assms show "collect_img_paths body
      = paths (fold (\<lambda>l. scan_dialogue_line (normalize_line l)) (split_lines body []) scan_init)"
    by (simp add: collect_img_paths_def line_loop_fold fold_in_scope)
next
  assume h: "CHR 0x0A \<notin> set hdr \<and> is_section_header (normalize_line hdr)
          \<and> to_lower_copy (section_name (normalize_line hdr)) = ''events''"
  define st1 where "st1 = (line_loop pre [] scan_init)\<lparr>saw_section := True, in_events := True\<rparr>"
  have "line_loop (pre @ CHR 0x0A # hdr @ CHR 0x0A # body) [] scan_init
          = fold process_line (split_lines body []) st1"
    using h by (simp add: line_loop_section st1_def)
  also have "\<dots> = fold (\<lambda>l. scan_dialogue_line (normalize_line l)) (split_lines body []) st1"
    using assms by (rule fold_in_scope) (simp add: st1_def)
  finally show "collect_img_paths (pre @ CHR 0x0A # hdr @ CHR 0x0A # body)
      = paths (fold (\<lambda>l. scan_dialogue_line (normalize_line l)) (split_lines body [])
                ((line_loop pre [] scan_init)\<lparr>saw_section := True, in_events := True\<rparr>))"
    by (simp add: collect_img_paths_def st1_def)
next
  assume h: "CHR 0x0A \<notin> set hdr \<and> is_section_header (normalize_line hdr)
          \<and> to_lower_copy (section_name (normalize_line hdr)) \<noteq> ''events''"
  define st1 where "st1 = (line_loop pre [] scan_init)\<lparr>saw_section := True, in_events := False\<rparr>"
  have "line_loop (pre @ CHR 0x0A # hdr @ CHR 0x0A # body) [] scan_init
          = fold process_line (split_lines body []) st1"
    using h by (simp add: line_loop_section st1_def)
  also have "\<dots> = st1"
    using assms by (rule fold_out_of_scope) (simp_all add: st1_def)
  finally show "collect_img_paths (pre @ CHR 0x0A # hdr @ CHR 0x0A # body) = collect_img_paths pre"
    by (simp add: collect_img_paths_def st1_def)
next
  show "paths (scan_dialogue_line line st)
          = (if 9 \<le> length line \<and> to_lower_copy (take 9 line) = ''dialogue:''
             then fst (collect_img_paths_from_span line (paths st, seen st)) else paths st)"
    by (rule paths_scan_dialogue_line)
next
  show "collect_img_paths (''[V4+ Styles]'' @ [CHR 0x0A] @ ''Dialogue: 0,{'' @ [backslash]
                             @ ''img(x.png)}'') = []"
    by code_simp
next
  show "collect_img_paths (''Dialogue: 0,{'' @ [backslash] @ ''img(x.png)}'') = [''x.png'']"
    by code_simp
next
  show "collect_img_paths (''[ EVENTS ]'' @ [CHR 0x0D, CHR 0x0A] @ ''dialogue: 0,{'' @ [backslash]
                             @ ''img(x.png)}'') = [''x.png'']"
    by code_simp
qed

text \<open>
  A use of the theorem: a Dialogue line before any header is found, and the lines under
  \<^verbatim>\<open>[V4+ Styles]\<close> add nothing to it.
\<close>

theorem collect_img_paths_sections_witness:
  "list_all (\<lambda>l. \<not> is_section_header (normalize_line l))
      (split_lines (''Style: a'' @ [CHR 0x0A] @ ''Dialogue: 0,{'' @ [backslash] @ ''img(x.png)}'') [])
   \<and> CHR 0x0A \<notin> set ''[V4+ Styles]'' \<and> is_section_header (normalize_line ''[V4+ Styles]'')
   \<and> to_lower_copy (section_name (normalize_line ''[V4+ Styles]'')) \<noteq> ''events''
   \<and> collect_img_paths ((''Dialogue: {'' @ [backslash] @ ''img(y.png)}'') @ CHR 0x0A # ''[V4+ Styles]''
        @ CHR 0x0A # ''Style: a'' @ [CHR 0x0A] @ ''Dialogue: 0,{'' @ [backslash] @ ''img(x.png)}'')
      = collect_img_paths (''Dialogue: {'' @ [backslash] @ ''img(y.png)}'')"
proof -
  have body: "list_all (\<lambda>l. \<not> is_section_header (normalize_line l))
      (split_lines (''Style: a'' @ [CHR 0x0A] @ ''Dialogue: 0,{'' @ [backslash] @ ''img(x.png)}'') [])"
    by code_simp
  have hdr: "CHR 0x0A \<notin> set ''[V4+ Styles]'' \<and> is_section_header (normalize_line ''[V4+ Styles]'')
     \<and> to_lower_copy (section_name (normalize_line ''[V4+ Styles]'')) \<noteq> ''events''"
    by code_simp
  note other = collect_img_paths_sections [OF body, of "''[V4+ Styles]''"
      "''Dialogue: {'' @ [backslash] @ ''img(y.png)}''" "[]" scan_init,
      THEN conjunct2, THEN conjunct2, THEN conjunct1]
  have "collect_img_paths ((''Dialogue: {'' @ [backslash] @ ''img(y.png)}'') @ CHR 0x0A # ''[V4+ Styles]''
        @ CHR 0x0A # ''Style: a'' @ [CHR 0x0A] @ ''Dialogue: 0,{'' @ [backslash] @ ''img(x.png)}'')
      = collect_img_paths (''Dialogue: {'' @ [backslash] @ ''img(y.png)}'')"
    using other hdr by (rule mp)
  with body hdr show ?thesis
    by blast
qed

section \<open>Pixel arithmetic of the two blends\<close>

lemma unat_byte_le: "unat (x :: byte) \<le> 255"
proof -
  have "unat x < 2 ^ LENGTH(8)"
    by (rule unsigned_less)
  then show ?thesis by simp
qed

lemma unat_ucast_byte: "unat (ucast (x :: byte) :: 32 word) = unat x"
proof -
  have "unat (ucast x :: 32 word) = take_bit LENGTH(32) (unat x)"
    by (rule unsigned_ucast_eq)
  also have "\<dots> = unat x"
    using unat_byte_le [of x] by (simp add: take_bit_nat_eq_self)
  finally show ?thesis .
qed

lemma unat_ucast_low: "unat (ucast (w :: 32 word) :: byte) = unat w mod 256"
proof -
  have "unat (ucast w :: byte) = take_bit LENGTH(8) (unat w)"
    by (rule unsigned_ucast_eq)
  then show ?thesis
    by (simp add: take_bit_eq_mod)
qed

lemma unat_255_minus:
  assumes "unat (x :: 32 word) \<le> 255"
  shows "unat (255 - x) = 255 - unat x"
proof -
  have "x \<le> 255"
    using assms by (simp add: word_le_nat_alt)
  then show ?thesis
    by (simp add: unat_sub)
qed

lemma unat_mult_small:
  assumes "unat (x :: 32 word) \<le> 255" "unat (y :: 32 word) \<le> 255"
  shows "unat (x * y) = unat x * unat y"
proof -
  have "unat x * unat y \<le> 255 * 255"
    using assms by (rule mult_le_mono)
  then have "unat x * unat y < 2 ^ LENGTH(32)"
    by simp
  then show ?thesis
    by (simp only: unat_mult_lem)
qed

lemma unat_add_small:
  assumes "unat (x :: 32 word) \<le> 65025" "unat (y :: 32 word) \<le> 65025"
  shows "unat (x + y) = unat x + unat y"
proof -
  have "unat x + unat y < 2 ^ LENGTH(32)"
    using assms by simp
  then show ?thesis
    by (simp only: unat_add_lem)
qed

lemma unat_div_255: "unat ((x :: 32 word) div 255) = unat x div 255"
  by (simp add: unat_div)

text \<open>One channel of the premultiplied-RGBA blend, read as natural numbers.\<close>

lemma rgba_channel:
  "unat (ucast (ucast (s :: byte) + (ucast (f :: byte) * (255 - ucast (a :: byte))) div 255 :: 32 word) :: byte)
     = (unat s + unat f * (255 - unat a) div 255) mod 256"
proof -
  define ia where "ia = (255 - ucast a :: 32 word)"
  have ia: "unat ia = 255 - unat a"
    unfolding ia_def using unat_byte_le [of a] by (simp add: unat_255_minus unat_ucast_byte)
  have prod: "unat (ucast f * ia) = unat f * (255 - unat a)"
    using unat_byte_le [of f] ia by (simp add: unat_mult_small unat_ucast_byte)
  have "unat f * (255 - unat a) \<le> 255 * 255"
    using unat_byte_le [of f] by (intro mult_le_mono) auto
  then have quot: "unat ((ucast f * ia) div 255) \<le> 255"
    by (simp add: unat_div_255 prod)
  have "unat (ucast s + (ucast f * ia) div 255) = unat s + unat f * (255 - unat a) div 255"
    using unat_byte_le [of s] quot
    by (simp add: unat_add_small unat_ucast_byte unat_div_255 prod)
  then show ?thesis
    by (simp add: unat_ucast_low ia_def)
qed

lemma rgba_channel_premultiplied:
  assumes "unat (s :: byte) \<le> unat (a :: byte)"
  shows "unat (s :: byte) + unat (f :: byte) * (255 - unat a) div 255 < 256"
proof -
  have "unat f * (255 - unat a) \<le> 255 * (255 - unat a)"
    using unat_byte_le [of f] by (intro mult_le_mono) auto
  then have "unat f * (255 - unat a) div 255 \<le> 255 * (255 - unat a) div 255"
    by (rule div_le_mono)
  then have "unat f * (255 - unat a) div 255 \<le> 255 - unat a"
    by simp
  with assms unat_byte_le [of a] show ?thesis
    by simp
qed

lemma and_ff: "unat ((x :: 32 word) AND 0xFF) = unat x mod 256"
proof -
  have "(0xFF :: 32 word) = mask 8"
    by (simp add: mask_eq_exp_minus_1)
  then have "x AND 0xFF = take_bit 8 x"
    by (simp add: take_bit_eq_mask)
  moreover have "unat (take_bit 8 x) = take_bit 8 (unat x)"
    by (rule unsigned_take_bit_eq)
  moreover have "take_bit 8 (unat x) = unat x mod 256"
    by (simp add: take_bit_eq_mod)
  ultimately show ?thesis
    by (simp only:)
qed

lemma unat_shift: "unat (drop_bit n (c :: 32 word)) = unat c div 2 ^ n"
proof -
  have "unat (drop_bit n c) = drop_bit n (unat c)"
    by (rule unat_drop_bit_eq)
  then show ?thesis
    by (simp only: drop_bit_eq_div)
qed

lemma unat_a_of: "unat (a_of c) = unat c mod 256"
  unfolding a_of_def by (rule and_ff)

lemma unat_b_of: "unat (b_of c) = unat c div 2 ^ 8 mod 256"
  unfolding b_of_def and_ff unat_shift by (rule refl)

lemma unat_g_of: "unat (g_of c) = unat c div 2 ^ 16 mod 256"
  unfolding g_of_def and_ff unat_shift by (rule refl)

lemma unat_r_of: "unat (r_of c) = unat c div 2 ^ 24"
  unfolding r_of_def by (rule unat_shift)

lemma unat_r_of_le: "unat (r_of c) \<le> 255"
proof -
  have "unat c < 2 ^ LENGTH(32)"
    by (rule unsigned_less)
  then have "unat c div 2 ^ 24 < 256"
    by (simp add: less_mult_imp_div_less)
  then show ?thesis
    by (simp add: unat_r_of)
qed

lemma unat_gba_of_le: "unat (g_of c) \<le> 255" "unat (b_of c) \<le> 255" "unat (a_of c) \<le> 255"
  by (simp_all add: unat_g_of unat_b_of unat_a_of) 

lemma unat_opacity: "unat (255 - a_of c) = 255 - unat c mod 256"
  using unat_gba_of_le(3) [of c] by (simp add: unat_255_minus unat_a_of)

lemma blend_bound:
  assumes "k \<le> (255::nat)" "tc \<le> 255" "f \<le> 255"
  shows "k * tc + (255 - k) * f \<le> 255 * 255"
proof -
  have "k * tc \<le> k * 255"
    using assms(2) by (rule mult_le_mono2)
  moreover have "(255 - k) * f \<le> (255 - k) * 255"
    using assms(3) by (rule mult_le_mono2)
  moreover have "k * 255 + (255 - k) * 255 = 255 * 255"
    using assms(1) by (simp add: add_mult_distrib [symmetric])
  ultimately show ?thesis
    by linarith
qed

text \<open>The factor k of the alpha-mask blend, read as a natural number.\<close>

lemma mask_k:
  assumes "unat (opacity :: 32 word) \<le> 255"
  shows "unat (ucast (m :: byte) * opacity div 255) = unat m * unat opacity div 255"
    and "unat (ucast (m :: byte) * opacity div 255) \<le> 255"
proof -
  have prod: "unat (ucast m * opacity) = unat m * unat opacity"
    using unat_byte_le [of m] assms by (simp add: unat_mult_small unat_ucast_byte)
  show k: "unat (ucast m * opacity div 255) = unat m * unat opacity div 255"
    by (simp add: unat_div_255 prod)
  have "unat m * unat opacity \<le> 255 * 255"
    using unat_byte_le [of m] assms by (rule mult_le_mono)
  then show "unat (ucast m * opacity div 255) \<le> 255"
    unfolding k by simp
qed

text \<open>One channel of the alpha-mask blend, read as natural numbers.\<close>

lemma mask_channel:
  assumes "unat (k :: 32 word) \<le> 255" "unat (tc :: 32 word) \<le> 255"
  shows "unat (ucast ((k * tc + (255 - k) * ucast (f :: byte)) div 255 :: 32 word) :: byte)
     = (unat k * unat tc + (255 - unat k) * unat f) div 255"
proof -
  have ck: "unat (255 - k) = 255 - unat k"
    using assms(1) by (rule unat_255_minus)
  have p1: "unat (k * tc) = unat k * unat tc"
    using assms by (rule unat_mult_small)
  have p2: "unat ((255 - k) * ucast f) = (255 - unat k) * unat f"
    using unat_byte_le [of f] by (simp add: unat_mult_small ck unat_ucast_byte)
  have b1: "unat k * unat tc \<le> 65025"
    using mult_le_mono [OF assms] by simp
  have b2: "(255 - unat k) * unat f \<le> 65025"
    using mult_le_mono [of "255 - unat k" 255 "unat f" 255] unat_byte_le [of f] by simp
  have sum: "unat (k * tc + (255 - k) * ucast f) = unat k * unat tc + (255 - unat k) * unat f"
    using b1 b2 by (simp add: unat_add_small p1 p2)
  have "unat k * unat tc + (255 - unat k) * unat f \<le> 255 * 255"
    using assms unat_byte_le [of f] by (intro blend_bound)
  then have "(unat k * unat tc + (255 - unat k) * unat f) div 255 < 256"
    by simp
  then show ?thesis
    by (simp add: unat_ucast_low unat_div_255 sum)
qed

section \<open>Reading and writing frame pixels\<close>

lemma put_pixel_fields:
  "frame_width (put_pixel fr x y p) = frame_width fr"
  "frame_height (put_pixel fr x y p) = frame_height fr"
  "frame_flipped (put_pixel fr x y p) = frame_flipped fr"
  "length (frame_data (put_pixel fr x y p)) = length (frame_data fr)"
  by (simp_all add: put_pixel_def Let_def split: prod.splits)

lemma dst_offset_put_pixel: "dst_offset (put_pixel fr x y p) x' y' = dst_offset fr x' y'"
  by (simp add: dst_offset_def put_pixel_fields)

lemma row_col_less:
  assumes "x < w" "r < (h::nat)"
  shows "(r * w + x) * 4 + 3 < w * h * 4"
proof -
  have "r * w + x < (r + 1) * w"
    using assms(1) by simp
  also have "\<dots> \<le> h * w"
    using assms(2) by (intro mult_le_mono1) simp
  finally have "r * w + x < w * h"
    by (simp add: mult.commute)
  then show ?thesis
    by simp
qed

lemma dst_offset_in_range:
  assumes "frame_width fr * frame_height fr * 4 \<le> length (frame_data fr)" "x < frame_width fr" "y < frame_height fr"
  shows "dst_offset fr x y + 3 < length (frame_data fr)"
proof -
  have "(if frame_flipped fr then frame_height fr - 1 - y else y) < frame_height fr"
    using assms(3) by simp
  from row_col_less [OF assms(2) this] assms(1) show ?thesis
    by (simp add: dst_offset_def)
qed

lemma row_col_inj:
  assumes "r * w + x = r' * w + x'" "x < w" "x' < (w::nat)"
  shows "r = r' \<and> x = x'"
proof -
  have "(r * w + x) div w = r" "(r' * w + x') div w = r'"
    using assms(2,3) by simp_all
  with assms(1) have "r = r'"
    by simp
  with assms(1) show ?thesis
    by simp
qed

lemma dst_offset_inj:
  assumes "dst_offset fr x y = dst_offset fr x' y'"
    and "x < frame_width fr" "x' < frame_width fr" "y < frame_height fr" "y' < frame_height fr"
  shows "x = x' \<and> y = y'"
proof -
  define r where "r = (if frame_flipped fr then frame_height fr - 1 - y else y)"
  define r' where "r' = (if frame_flipped fr then frame_height fr - 1 - y' else y')"
  have "r * frame_width fr + x = r' * frame_width fr + x'"
    using assms(1) by (simp add: dst_offset_def r_def r'_def)
  from row_col_inj [OF this assms(2,3)] have "r = r'" "x = x'"
    by simp_all
  moreover from \<open>r = r'\<close> have "y = y'"
    using assms(4,5) by (auto simp: r_def r'_def split: if_splits)
  ultimately show ?thesis
    by simp
qed

lemma dst_offset_mult4: "\<exists>i. dst_offset fr x y = i * 4"
  unfolding dst_offset_def by (rule exI) (rule refl)

lemma get_put_same:
  assumes "frame_width fr * frame_height fr * 4 \<le> length (frame_data fr)" "x < frame_width fr" "y < frame_height fr"
  shows "get_pixel (put_pixel fr x y p) x y = p"
proof -
  obtain p0 p1 p2 p3 where p: "p = (p0, p1, p2, p3)"
    by (cases p) auto
  have "dst_offset fr x y + 3 < length (frame_data fr)"
    using assms by (rule dst_offset_in_range)
  then show ?thesis
    by (simp add: get_pixel_def dst_offset_put_pixel Let_def p) (simp add: put_pixel_def Let_def)
qed

lemma get_put_other:
  assumes "x < frame_width fr" "x' < frame_width fr" "y < frame_height fr" "y' < frame_height fr"
    and "(x, y) \<noteq> (x', y')"
  shows "get_pixel (put_pixel fr x y p) x' y' = get_pixel fr x' y'"
proof -
  obtain p0 p1 p2 p3 where p: "p = (p0, p1, p2, p3)"
    by (cases p) auto
  obtain i where i: "dst_offset fr x y = i * 4"
    using dst_offset_mult4 by blast
  obtain j where j: "dst_offset fr x' y' = j * 4"
    using dst_offset_mult4 by blast
  have "dst_offset fr x y \<noteq> dst_offset fr x' y'"
    using dst_offset_inj [OF _ assms(1,2,3,4)] assms(5) by auto
  then have "i \<noteq> j"
    using i j by auto
  then have "i * 4 \<noteq> j * 4" "i * 4 \<noteq> j * 4 + 1" "i * 4 \<noteq> j * 4 + 2" "i * 4 \<noteq> j * 4 + 3"
    "i * 4 + 1 \<noteq> j * 4" "i * 4 + 1 \<noteq> j * 4 + 1" "i * 4 + 1 \<noteq> j * 4 + 2" "i * 4 + 1 \<noteq> j * 4 + 3"
    "i * 4 + 2 \<noteq> j * 4" "i * 4 + 2 \<noteq> j * 4 + 1" "i * 4 + 2 \<noteq> j * 4 + 2" "i * 4 + 2 \<noteq> j * 4 + 3"
    "i * 4 + 3 \<noteq> j * 4" "i * 4 + 3 \<noteq> j * 4 + 1" "i * 4 + 3 \<noteq> j * 4 + 2" "i * 4 + 3 \<noteq> j * 4 + 3"
    by presburger+
  then show ?thesis
    by (simp add: get_pixel_def dst_offset_put_pixel Let_def p j) (simp add: put_pixel_def Let_def i)
qed

lemma find_unique:
  assumes "c \<in> set cs" "P c" "\<And>c'. P c' \<Longrightarrow> c' = c"
  shows "find P cs = Some c"
  using assms(1)
proof (induction cs)
  case Nil
  then show ?case by simp
next
  case (Cons a cs)
  show ?case
  proof (cases "P a")
    case True
    with assms(3) show ?thesis by simp
  next
    case False
    with assms(2) Cons show ?thesis by auto
  qed
qed

text \<open>The pixel loop, as a fold over the coordinates it visits.\<close>

lemma fold_pixels:
  assumes "distinct cs"
    and "\<forall>(y, x)\<in>set cs. dst_x + x < frame_width fr \<and> dst_y + y < frame_height fr"
    and "frame_width fr * frame_height fr * 4 \<le> length (frame_data fr)"
    and "X < frame_width fr" "Y < frame_height fr"
  shows "get_pixel (fold (\<lambda>(y, x) fr. put_pixel fr (dst_x + x) (dst_y + y)
                              (fn (get_pixel fr (dst_x + x) (dst_y + y)) (src x y))) cs fr) X Y
           = (case find (\<lambda>(y, x). dst_x + x = X \<and> dst_y + y = Y) cs of
                None \<Rightarrow> get_pixel fr X Y
              | Some (y, x) \<Rightarrow> fn (get_pixel fr X Y) (src x y))"
  using assms
proof (induction cs arbitrary: fr)
  case Nil
  show ?case by simp
next
  case (Cons c cs)
  obtain y x where c: "c = (y, x)"
    by (cases c) auto
  define fr1 where "fr1 = put_pixel fr (dst_x + x) (dst_y + y)
                            (fn (get_pixel fr (dst_x + x) (dst_y + y)) (src x y))"
  have inb: "dst_x + x < frame_width fr" "dst_y + y < frame_height fr"
    using Cons.prems(2) by (auto simp: c)
  have IH: "get_pixel (fold (\<lambda>(y, x) fr. put_pixel fr (dst_x + x) (dst_y + y)
                              (fn (get_pixel fr (dst_x + x) (dst_y + y)) (src x y))) cs fr1) X Y
           = (case find (\<lambda>(y, x). dst_x + x = X \<and> dst_y + y = Y) cs of
                None \<Rightarrow> get_pixel fr1 X Y
              | Some (y, x) \<Rightarrow> fn (get_pixel fr1 X Y) (src x y))"
    using Cons.prems by (intro Cons.IH) (auto simp: fr1_def put_pixel_fields)
  have step: "fold (\<lambda>(y, x) fr. put_pixel fr (dst_x + x) (dst_y + y)
                      (fn (get_pixel fr (dst_x + x) (dst_y + y)) (src x y))) (c # cs) fr
               = fold (\<lambda>(y, x) fr. put_pixel fr (dst_x + x) (dst_y + y)
                      (fn (get_pixel fr (dst_x + x) (dst_y + y)) (src x y))) cs fr1"
    by (simp add: c fr1_def)
  show ?case
  proof (cases "dst_x + x = X \<and> dst_y + y = Y")
    case True
    have none: "find (\<lambda>(y, x). dst_x + x = X \<and> dst_y + y = Y) cs = None"
      using Cons.prems(1) True by (auto simp: find_None_iff c)
    have hit: "find (\<lambda>(y, x). dst_x + x = X \<and> dst_y + y = Y) (c # cs) = Some (y, x)"
      using True by (simp add: c)
    have "get_pixel fr1 X Y = fn (get_pixel fr X Y) (src x y)"
      using True get_put_same [OF Cons.prems(3) inb] by (auto simp: fr1_def)
    then show ?thesis
      unfolding step IH none hit by simp
  next
    case False
    have miss: "find (\<lambda>(y, x). dst_x + x = X \<and> dst_y + y = Y) (c # cs)
                  = find (\<lambda>(y, x). dst_x + x = X \<and> dst_y + y = Y) cs"
      using False by (auto simp: c)
    have eq: "get_pixel fr1 X Y = get_pixel fr X Y"
      unfolding fr1_def using inb Cons.prems(4,5) False by (intro get_put_other) auto
    show ?thesis
      unfolding step IH miss eq by (rule refl)
  qed
qed

lemma transform_pixels_covered:
  assumes "dst_in_bounds fr dst_x dst_y w h" "x < w" "y < h"
  shows "get_pixel (transform_pixels fn src dst_x dst_y w h fr) (dst_x + x) (dst_y + y)
           = fn (get_pixel fr (dst_x + x) (dst_y + y)) (src x y)"
proof -
  have d: "distinct (List.product [0..<h] [0..<w])"
    by (simp add: distinct_product)
  have b: "\<forall>(y, x)\<in>set (List.product [0..<h] [0..<w]).
             dst_x + x < frame_width fr \<and> dst_y + y < frame_height fr"
    using assms(1) by (auto simp: dst_in_bounds_def)
  have ok: "frame_width fr * frame_height fr * 4 \<le> length (frame_data fr)"
    and XY: "dst_x + x < frame_width fr" "dst_y + y < frame_height fr"
    using assms by (auto simp: dst_in_bounds_def)
  have f: "find (\<lambda>(y', x'). dst_x + x' = dst_x + x \<and> dst_y + y' = dst_y + y)
             (List.product [0..<h] [0..<w]) = Some (y, x)"
    using assms(2,3) by (intro find_unique) auto
  show ?thesis
    unfolding transform_pixels_def fold_pixels [OF d b ok XY] f by simp
qed

lemma transform_pixels_elsewhere:
  assumes "dst_in_bounds fr dst_x dst_y w h" "X < frame_width fr" "Y < frame_height fr"
    and "\<not> (dst_x \<le> X \<and> X < dst_x + w \<and> dst_y \<le> Y \<and> Y < dst_y + h)"
  shows "get_pixel (transform_pixels fn src dst_x dst_y w h fr) X Y = get_pixel fr X Y"
proof -
  have d: "distinct (List.product [0..<h] [0..<w])"
    by (simp add: distinct_product)
  have b: "\<forall>(y, x)\<in>set (List.product [0..<h] [0..<w]).
             dst_x + x < frame_width fr \<and> dst_y + y < frame_height fr"
    using assms(1) by (auto simp: dst_in_bounds_def)
  have ok: "frame_width fr * frame_height fr * 4 \<le> length (frame_data fr)"
    using assms by (auto simp: dst_in_bounds_def)
  have f: "find (\<lambda>(y', x'). dst_x + x' = X \<and> dst_y + y' = Y)
             (List.product [0..<h] [0..<w]) = None"
    using assms(4) by (auto simp: find_None_iff)
  show ?thesis
    unfolding transform_pixels_def fold_pixels [OF d b ok assms(2,3)] f by simp
qed

section \<open>The blends on a tile\<close>

lemma blend_rgba_tile_covered:
  assumes "blend_rgba_tile img frame = Some frame'" "x < rgba_w img" "y < rgba_h img"
  shows "get_pixel frame' (rgba_dst_x img + x) (rgba_dst_y img + y)
           = blend_rgba (get_pixel frame (rgba_dst_x img + x) (rgba_dst_y img + y))
               (rgba_pixel img x y)"
proof -
  have nz: "\<not> (rgba_w img = 0 \<or> rgba_h img = 0)"
    using assms(2,3) by auto
  have inb: "dst_in_bounds frame (rgba_dst_x img) (rgba_dst_y img) (rgba_w img) (rgba_h img)"
    and fr: "frame' = transform_pixels blend_rgba (rgba_pixel img)
                        (rgba_dst_x img) (rgba_dst_y img) (rgba_w img) (rgba_h img) frame"
    using assms(1) nz by (auto simp: blend_rgba_tile_def split: if_splits)
  show ?thesis
    unfolding fr using inb assms(2,3) by (rule transform_pixels_covered)
qed

lemma blend_mask_tile_covered:
  assumes "blend_mask_tile img frame = Some frame'" "x < img_w img" "y < img_h img"
  shows "get_pixel frame' (img_dst_x img + x) (img_dst_y img + y)
           = blend_mask (255 - a_of (img_color img)) (r_of (img_color img))
               (g_of (img_color img)) (b_of (img_color img))
               (get_pixel frame (img_dst_x img + x) (img_dst_y img + y))
               (mask_pixel img x y)"
proof -
  have nz: "\<not> (img_w img = 0 \<or> img_h img = 0)"
    using assms(2,3) by auto
  have inb: "dst_in_bounds frame (img_dst_x img) (img_dst_y img) (img_w img) (img_h img)"
    and fr: "frame' = transform_pixels
                        (blend_mask (255 - a_of (img_color img)) (r_of (img_color img))
                           (g_of (img_color img)) (b_of (img_color img)))
                        (mask_pixel img)
                        (img_dst_x img) (img_dst_y img) (img_w img) (img_h img) frame"
    using assms(1) nz by (auto simp: blend_mask_tile_def Let_def split: if_splits)
  show ?thesis
    unfolding fr using inb assms(2,3) by (rule transform_pixels_covered)
qed

lemma blend_rgba_channels:
  assumes "blend_rgba (db, dg, dr, da) (sr, sg, sb, sa) = (b', g', r', a')"
  shows "unat b' = (unat sb + unat db * (255 - unat sa) div 255) mod 256"
    and "unat g' = (unat sg + unat dg * (255 - unat sa) div 255) mod 256"
    and "unat r' = (unat sr + unat dr * (255 - unat sa) div 255) mod 256"
    and "a' = 0"
  using assms by (auto simp: blend_rgba_def Let_def rgba_channel)

lemma blend_mask_channels:
  assumes "blend_mask opacity r g b (db, dg, dr, da) m = (b', g', r', a')"
    and "unat opacity \<le> 255" "unat r \<le> 255" "unat g \<le> 255" "unat b \<le> 255"
  shows "unat b' = (unat m * unat opacity div 255 * unat b
                     + (255 - unat m * unat opacity div 255) * unat db) div 255"
    and "unat g' = (unat m * unat opacity div 255 * unat g
                     + (255 - unat m * unat opacity div 255) * unat dg) div 255"
    and "unat r' = (unat m * unat opacity div 255 * unat r
                     + (255 - unat m * unat opacity div 255) * unat dr) div 255"
    and "a' = 0"
proof -
  define k where "k = ucast m * opacity div 255"
  have k: "unat k = unat m * unat opacity div 255" "unat k \<le> 255"
    unfolding k_def using assms(2) by (rule mask_k)+
  have eqs: "b' = ucast ((k * b + (255 - k) * ucast db) div 255)"
    "g' = ucast ((k * g + (255 - k) * ucast dg) div 255)"
    "r' = ucast ((k * r + (255 - k) * ucast dr) div 255)"
    "a' = 0"
    using assms(1) by (auto simp: blend_mask_def Let_def k_def)
  show "unat b' = (unat m * unat opacity div 255 * unat b
                     + (255 - unat m * unat opacity div 255) * unat db) div 255"
    unfolding eqs(1) mask_channel [OF k(2) assms(5)] k(1) by (rule refl)
  show "unat g' = (unat m * unat opacity div 255 * unat g
                     + (255 - unat m * unat opacity div 255) * unat dg) div 255"
    unfolding eqs(2) mask_channel [OF k(2) assms(4)] k(1) by (rule refl)
  show "unat r' = (unat m * unat opacity div 255 * unat r
                     + (255 - unat m * unat opacity div 255) * unat dr) div 255"
    unfolding eqs(3) mask_channel [OF k(2) assms(3)] k(1) by (rule refl)
  show "a' = 0"
    by (rule eqs(4))
qed

lemma blend_mask_zero:
  assumes "unat opacity \<le> 255" "unat r \<le> 255" "unat g \<le> 255" "unat b \<le> 255"
  shows "blend_mask opacity r g b (db, dg, dr, da) 0 = (db, dg, dr, 0)"
proof -
  obtain b' g' r' a' where res: "blend_mask opacity r g b (db, dg, dr, da) 0 = (b', g', r', a')"
    by (metis prod_cases4)
  from blend_mask_channels [OF res assms]
  have "unat b' = unat db" "unat g' = unat dg" "unat r' = unat dr" "a' = 0"
    by simp_all
  then show ?thesis
    unfolding res by (simp add: word_unat_eq_iff)
qed

text \<open>The values of a covered pixel after one premultiplied tile, channel by channel.\<close>

lemma blend_rgba_tile_pixel_values:
  assumes "blend_rgba_tile img frame = Some frame'" "x < rgba_w img" "y < rgba_h img"
    and "get_pixel frame (rgba_dst_x img + x) (rgba_dst_y img + y) = (db, dg, dr, da)"
    and "rgba_pixel img x y = (sr, sg, sb, sa)"
    and "get_pixel frame' (rgba_dst_x img + x) (rgba_dst_y img + y) = (b', g', r', a')"
  shows "unat b' = (unat sb + unat db * (255 - unat sa) div 255) mod 256
     \<and> unat g' = (unat sg + unat dg * (255 - unat sa) div 255) mod 256
     \<and> unat r' = (unat sr + unat dr * (255 - unat sa) div 255) mod 256
     \<and> a' = 0
     \<and> (unat sb \<le> unat sa \<longrightarrow> unat b' = unat sb + unat db * (255 - unat sa) div 255)
     \<and> (unat sg \<le> unat sa \<longrightarrow> unat g' = unat sg + unat dg * (255 - unat sa) div 255)
     \<and> (unat sr \<le> unat sa \<longrightarrow> unat r' = unat sr + unat dr * (255 - unat sa) div 255)"
proof -
  have "blend_rgba (db, dg, dr, da) (sr, sg, sb, sa) = (b', g', r', a')"
    using blend_rgba_tile_covered [OF assms(1,2,3)] assms(4,5,6) by simp
  note ch = blend_rgba_channels [OF this]
  show ?thesis
    using ch
      rgba_channel_premultiplied [of sb sa db]
      rgba_channel_premultiplied [of sg sa dg]
      rgba_channel_premultiplied [of sr sa dr]
    by (intro conjI impI) simp_all
qed

text \<open>The values of a covered pixel after one alpha-mask tile, channel by channel.\<close>

lemma blend_mask_tile_pixel_values:
  assumes "blend_mask_tile img frame = Some frame'" "x < img_w img" "y < img_h img"
    and "get_pixel frame (img_dst_x img + x) (img_dst_y img + y) = (db, dg, dr, da)"
    and "get_pixel frame' (img_dst_x img + x) (img_dst_y img + y) = (b', g', r', a')"
    and "opacity = 255 - unat (img_color img) mod 256"
    and "r = unat (img_color img) div 2 ^ 24"
    and "g = unat (img_color img) div 2 ^ 16 mod 256"
    and "b = unat (img_color img) div 2 ^ 8 mod 256"
    and "k = unat (mask_pixel img x y) * opacity div 255"
  shows "unat b' = (k * b + (255 - k) * unat db) div 255
     \<and> unat g' = (k * g + (255 - k) * unat dg) div 255
     \<and> unat r' = (k * r + (255 - k) * unat dr) div 255
     \<and> a' = 0"
proof -
  have res: "blend_mask (255 - a_of (img_color img)) (r_of (img_color img))
               (g_of (img_color img)) (b_of (img_color img)) (db, dg, dr, da) (mask_pixel img x y)
             = (b', g', r', a')"
    using blend_mask_tile_covered [OF assms(1,2,3)] assms(4,5) by simp
  have op: "unat (255 - a_of (img_color img)) \<le> 255"
    by (simp add: unat_opacity)
  note ch = blend_mask_channels [OF res op unat_r_of_le unat_gba_of_le(1,2)]
  show ?thesis
    using ch
    unfolding assms(6,7,8,9,10) unat_opacity unat_r_of unat_g_of unat_b_of
    by (intro conjI)
qed

text \<open>
  Claim C10. In the alpha-mask blend, a covered destination pixel whose mask value is 0
  keeps its B, G and R bytes, and its alpha byte becomes 0: the pixel is left as it was
  exactly when its alpha byte was 0 already. On the sample frame the pixel (4, 5, 6, 7)
  under mask 0 becomes (4, 5, 6, 0), so the frame buffer changes.
\<close>

theorem blend_mask_tile_zero_mask:
  assumes "blend_mask_tile img frame = Some frame'" "x < img_w img" "y < img_h img"
    and "mask_pixel img x y = 0"
    and "get_pixel frame (img_dst_x img + x) (img_dst_y img + y) = (db, dg, dr, da)"
  shows "get_pixel frame' (img_dst_x img + x) (img_dst_y img + y) = (db, dg, dr, 0)
     \<and> (get_pixel frame' (img_dst_x img + x) (img_dst_y img + y)
          = get_pixel frame (img_dst_x img + x) (img_dst_y img + y) \<longleftrightarrow> da = 0)
     \<and> map_option frame_data (blend_mask_tile (sample_mask_tile 0) sample_frame)
         = Some [1, 1, 1, 1, 2, 2, 2, 2, 3, 3, 3, 3, 4, 5, 6, 0]
     \<and> map_option frame_data (blend_mask_tile (sample_mask_tile 0) sample_frame)
         \<noteq> Some (frame_data sample_frame)"
proof -
  have op: "unat (255 - a_of (img_color img)) \<le> 255"
    by (simp add: unat_opacity)
  have px: "get_pixel frame' (img_dst_x img + x) (img_dst_y img + y) = (db, dg, dr, 0)"
    using blend_mask_tile_covered [OF assms(1,2,3)]
      blend_mask_zero [OF op unat_r_of_le unat_gba_of_le(1,2)]
    by (simp add: assms(4,5))
  have ex: "map_option frame_data (blend_mask_tile (sample_mask_tile 0) sample_frame)
         = Some [1, 1, 1, 1, 2, 2, 2, 2, 3, 3, 3, 3, 4, 5, 6, 0]"
    by (simp add: blend_mask_tile_def sample_mask_tile_def sample_frame_def dst_in_bounds_def
      transform_pixels_def put_pixel_def get_pixel_def mask_pixel_def dst_offset_def
      blend_mask_def r_of_def g_of_def b_of_def a_of_def)
  have ne: "map_option frame_data (blend_mask_tile (sample_mask_tile 0) sample_frame)
         \<noteq> Some (frame_data sample_frame)"
    unfolding ex by (simp add: sample_frame_def)
  show ?thesis
    using px ex ne by (auto simp: assms(5))
qed

text \<open>A use of the theorem on the sample frame, with mask value 0.\<close>

theorem blend_mask_tile_zero_mask_witness:
  "blend_mask_tile (sample_mask_tile 0) sample_frame
     = Some (sample_frame\<lparr>frame_data := [1, 1, 1, 1, 2, 2, 2, 2, 3, 3, 3, 3, 4, 5, 6, 0]\<rparr>)
   \<and> (0::nat) < img_w (sample_mask_tile 0) \<and> (0::nat) < img_h (sample_mask_tile 0)
   \<and> mask_pixel (sample_mask_tile 0) 0 0 = 0
   \<and> get_pixel sample_frame (img_dst_x (sample_mask_tile 0) + 0)
         (img_dst_y (sample_mask_tile 0) + 0) = (4, 5, 6, 7)
   \<and> get_pixel (sample_frame\<lparr>frame_data := [1, 1, 1, 1, 2, 2, 2, 2, 3, 3, 3, 3, 4, 5, 6, 0]\<rparr>)
         (img_dst_x (sample_mask_tile 0) + 0) (img_dst_y (sample_mask_tile 0) + 0)
        = (4, 5, 6, 0)"
proof -
  have h1: "blend_mask_tile (sample_mask_tile 0) sample_frame
     = Some (sample_frame\<lparr>frame_data := [1, 1, 1, 1, 2, 2, 2, 2, 3, 3, 3, 3, 4, 5, 6, 0]\<rparr>)"
    by (simp add: blend_mask_tile_def sample_mask_tile_def sample_frame_def dst_in_bounds_def
      transform_pixels_def put_pixel_def get_pixel_def mask_pixel_def dst_offset_def
      blend_mask_def r_of_def g_of_def b_of_def a_of_def)
  have h2: "(0::nat) < img_w (sample_mask_tile 0)" and h3: "(0::nat) < img_h (sample_mask_tile 0)"
    by (simp_all add: sample_mask_tile_def)
  have h4: "mask_pixel (sample_mask_tile 0) 0 0 = 0"
    by (simp add: sample_mask_tile_def mask_pixel_def)
  have h5: "get_pixel sample_frame (img_dst_x (sample_mask_tile 0) + 0)
         (img_dst_y (sample_mask_tile 0) + 0) = (4, 5, 6, 7)"
    by (simp add: get_pixel_def sample_frame_def sample_mask_tile_def dst_offset_def)
  note all = blend_mask_tile_zero_mask [OF h1 h2 h3 h4 h5]
  have "get_pixel (sample_frame\<lparr>frame_data := [1, 1, 1, 1, 2, 2, 2, 2, 3, 3, 3, 3, 4, 5, 6, 0]\<rparr>)
         (img_dst_x (sample_mask_tile 0) + 0) (img_dst_y (sample_mask_tile 0) + 0)
        = (4, 5, 6, 0)"
    using all by blast
  with h1 h2 h3 h4 h5 show ?thesis
    by blast
qed

section \<open>The tile lists of a frame\<close>

text \<open>A tile in the middle of a list: the frames before and after it.\<close>

lemma blend_tiles_split:
  assumes "blend_tiles f (before @ img # after) frame = Some result"
  shows "\<exists>frame_i frame_i'. blend_tiles f before frame = Some frame_i
           \<and> f img frame_i = Some frame_i' \<and> blend_tiles f after frame_i' = Some result"
  using assms
proof (induction before arbitrary: frame)
  case Nil
  then show ?case
    by (cases "f img frame") auto
next
  case (Cons t before)
  then obtain frame1 where t: "f t frame = Some frame1"
    and rest: "blend_tiles f (before @ img # after) frame1 = Some result"
    by (cases "f t frame") auto
  from Cons.IH [OF rest] t show ?case
    by auto
qed

lemma DrawSubtitles_composite:
  assumes "ass_track prov = Some track" "renderer api"
  shows "DrawSubtitles env api prov frame time_ms =
           (RegisterTagImages env api prov,
            composite (ass_render_frame_auto api track
                         (renderer_tag_images (RegisterTagImages env api prov))
                         (frame_width frame) (frame_height frame) time_ms) frame)"
  using assms by (simp add: DrawSubtitles_def Let_def)

lemma fold_put_pixel_fields:
  "frame_width (fold (\<lambda>(y, x) fr. put_pixel fr (dst_x + x) (dst_y + y) (g y x fr)) cs fr)
     = frame_width fr
   \<and> frame_height (fold (\<lambda>(y, x) fr. put_pixel fr (dst_x + x) (dst_y + y) (g y x fr)) cs fr)
     = frame_height fr"
proof (induction cs arbitrary: fr)
  case Nil
  show ?case by simp
next
  case (Cons c cs)
  obtain y x where c: "c = (y, x)"
    by (cases c) auto
  show ?case
    unfolding c fold_Cons comp_apply prod.case
    using Cons.IH [of "put_pixel fr (dst_x + x) (dst_y + y) (g y x fr)"]
    by (simp only: put_pixel_fields)
qed

lemma transform_pixels_fields:
  "frame_width (transform_pixels fn src dst_x dst_y w h fr) = frame_width fr
   \<and> frame_height (transform_pixels fn src dst_x dst_y w h fr) = frame_height fr"
  unfolding transform_pixels_def
  by (rule fold_put_pixel_fields
      [of dst_x dst_y "\<lambda>y x fr. fn (get_pixel fr (dst_x + x) (dst_y + y)) (src x y)"])

lemma blend_rgba_tile_elsewhere:
  assumes "blend_rgba_tile img frame = Some frame'"
  shows "frame_width frame' = frame_width frame \<and> frame_height frame' = frame_height frame"
    and "X < frame_width frame \<Longrightarrow> Y < frame_height frame \<Longrightarrow>
         \<not> (rgba_dst_x img \<le> X \<and> X < rgba_dst_x img + rgba_w img
            \<and> rgba_dst_y img \<le> Y \<and> Y < rgba_dst_y img + rgba_h img) \<Longrightarrow>
         get_pixel frame' X Y = get_pixel frame X Y"
proof -
  show "frame_width frame' = frame_width frame \<and> frame_height frame' = frame_height frame"
    using assms by (auto simp: blend_rgba_tile_def transform_pixels_fields split: if_splits)
  assume XY: "X < frame_width frame" "Y < frame_height frame"
    and out: "\<not> (rgba_dst_x img \<le> X \<and> X < rgba_dst_x img + rgba_w img
            \<and> rgba_dst_y img \<le> Y \<and> Y < rgba_dst_y img + rgba_h img)"
  show "get_pixel frame' X Y = get_pixel frame X Y"
  proof (cases "rgba_w img = 0 \<or> rgba_h img = 0")
    case True
    with assms show ?thesis
      by (simp add: blend_rgba_tile_def)
  next
    case False
    with assms have inb: "dst_in_bounds frame (rgba_dst_x img) (rgba_dst_y img) (rgba_w img) (rgba_h img)"
      and fr: "frame' = transform_pixels blend_rgba (rgba_pixel img)
                          (rgba_dst_x img) (rgba_dst_y img) (rgba_w img) (rgba_h img) frame"
      by (auto simp: blend_rgba_tile_def split: if_splits)
    show ?thesis
      unfolding fr using inb XY out by (rule transform_pixels_elsewhere)
  qed
qed

lemma blend_mask_tile_elsewhere:
  assumes "blend_mask_tile img frame = Some frame'"
  shows "frame_width frame' = frame_width frame \<and> frame_height frame' = frame_height frame"
    and "X < frame_width frame \<Longrightarrow> Y < frame_height frame \<Longrightarrow>
         \<not> (img_dst_x img \<le> X \<and> X < img_dst_x img + img_w img
            \<and> img_dst_y img \<le> Y \<and> Y < img_dst_y img + img_h img) \<Longrightarrow>
         get_pixel frame' X Y = get_pixel frame X Y"
proof -
  show "frame_width frame' = frame_width frame \<and> frame_height frame' = frame_height frame"
    using assms by (auto simp: blend_mask_tile_def Let_def transform_pixels_fields split: if_splits)
  assume XY: "X < frame_width frame" "Y < frame_height frame"
    and out: "\<not> (img_dst_x img \<le> X \<and> X < img_dst_x img + img_w img
            \<and> img_dst_y img \<le> Y \<and> Y < img_dst_y img + img_h img)"
  show "get_pixel frame' X Y = get_pixel frame X Y"
  proof (cases "img_w img = 0 \<or> img_h img = 0")
    case True
    with assms show ?thesis
      by (simp add: blend_mask_tile_def Let_def)
  next
    case False
    with assms have inb: "dst_in_bounds frame (img_dst_x img) (img_dst_y img) (img_w img) (img_h img)"
      and fr: "frame' = transform_pixels
                          (blend_mask (255 - a_of (img_color img)) (r_of (img_color img))
                             (g_of (img_color img)) (b_of (img_color img)))
                          (mask_pixel img)
                          (img_dst_x img) (img_dst_y img) (img_w img) (img_h img) frame"
      by (auto simp: blend_mask_tile_def Let_def split: if_splits)
    show ?thesis
      unfolding fr using inb XY out by (rule transform_pixels_elsewhere)
  qed
qed

text \<open>Tiles that do not cover a pixel leave it as it is.\<close>

lemma blend_tiles_elsewhere:
  assumes step_dims: "\<And>t f f'. step t f = Some f' \<Longrightarrow>
            frame_width f' = frame_width f \<and> frame_height f' = frame_height f"
    and step_px: "\<And>t f f'. step t f = Some f' \<Longrightarrow> X < frame_width f \<Longrightarrow> Y < frame_height f \<Longrightarrow>
            \<not> covers t \<Longrightarrow> get_pixel f' X Y = get_pixel f X Y"
    and "blend_tiles step tiles frame = Some result"
    and "list_all (\<lambda>t. \<not> covers t) tiles"
    and "X < frame_width frame" "Y < frame_height frame"
  shows "get_pixel result X Y = get_pixel frame X Y"
  using assms(3-)
proof (induction tiles arbitrary: frame)
  case Nil
  then show ?case by simp
next
  case (Cons t tiles)
  then obtain frame1 where t: "step t frame = Some frame1"
    and rest: "blend_tiles step tiles frame1 = Some result"
    by (cases "step t frame") auto
  have dims: "frame_width frame1 = frame_width frame \<and> frame_height frame1 = frame_height frame"
    using t by (rule step_dims)
  have "get_pixel result X Y = get_pixel frame1 X Y"
    using rest Cons.prems(2,3,4) dims by (intro Cons.IH) auto
  also have "\<dots> = get_pixel frame X Y"
    using t Cons.prems(2,3,4) by (intro step_px) auto
  finally show ?case .
qed


lemma blend_rgba_tiles_elsewhere:
  assumes "blend_tiles blend_rgba_tile tiles frame = Some result"
    and "list_all (\<lambda>t. \<not> (rgba_dst_x t \<le> X \<and> X < rgba_dst_x t + rgba_w t
                          \<and> rgba_dst_y t \<le> Y \<and> Y < rgba_dst_y t + rgba_h t)) tiles"
    and "X < frame_width frame" "Y < frame_height frame"
  shows "get_pixel result X Y = get_pixel frame X Y"
proof (rule blend_tiles_elsewhere [where step = blend_rgba_tile and tiles = tiles
      and covers = "\<lambda>t. rgba_dst_x t \<le> X \<and> X < rgba_dst_x t + rgba_w t
                          \<and> rgba_dst_y t \<le> Y \<and> Y < rgba_dst_y t + rgba_h t"])
  show "frame_width f' = frame_width f \<and> frame_height f' = frame_height f"
    if "blend_rgba_tile t f = Some f'" for t f f'
    using that by (rule blend_rgba_tile_elsewhere(1))
  show "get_pixel f' X Y = get_pixel f X Y"
    if "blend_rgba_tile t f = Some f'" "X < frame_width f" "Y < frame_height f"
      "\<not> (rgba_dst_x t \<le> X \<and> X < rgba_dst_x t + rgba_w t
          \<and> rgba_dst_y t \<le> Y \<and> Y < rgba_dst_y t + rgba_h t)" for t f f'
    using that by (rule blend_rgba_tile_elsewhere(2))
  show "blend_tiles blend_rgba_tile tiles frame = Some result"
    by (rule assms(1))
  show "list_all (\<lambda>t. \<not> (rgba_dst_x t \<le> X \<and> X < rgba_dst_x t + rgba_w t
                          \<and> rgba_dst_y t \<le> Y \<and> Y < rgba_dst_y t + rgba_h t)) tiles"
    by (rule assms(2))
  show "X < frame_width frame" "Y < frame_height frame"
    by (rule assms(3), rule assms(4))
qed

lemma blend_mask_tiles_elsewhere:
  assumes "blend_tiles blend_mask_tile tiles frame = Some result"
    and "list_all (\<lambda>t. \<not> (img_dst_x t \<le> X \<and> X < img_dst_x t + img_w t
                          \<and> img_dst_y t \<le> Y \<and> Y < img_dst_y t + img_h t)) tiles"
    and "X < frame_width frame" "Y < frame_height frame"
  shows "get_pixel result X Y = get_pixel frame X Y"
proof (rule blend_tiles_elsewhere [where step = blend_mask_tile and tiles = tiles
      and covers = "\<lambda>t. img_dst_x t \<le> X \<and> X < img_dst_x t + img_w t
                          \<and> img_dst_y t \<le> Y \<and> Y < img_dst_y t + img_h t"])
  show "frame_width f' = frame_width f \<and> frame_height f' = frame_height f"
    if "blend_mask_tile t f = Some f'" for t f f'
    using that by (rule blend_mask_tile_elsewhere(1))
  show "get_pixel f' X Y = get_pixel f X Y"
    if "blend_mask_tile t f = Some f'" "X < frame_width f" "Y < frame_height f"
      "\<not> (img_dst_x t \<le> X \<and> X < img_dst_x t + img_w t
          \<and> img_dst_y t \<le> Y \<and> Y < img_dst_y t + img_h t)" for t f f'
    using that by (rule blend_mask_tile_elsewhere(2))
  show "blend_tiles blend_mask_tile tiles frame = Some result"
    by (rule assms(1))
  show "list_all (\<lambda>t. \<not> (img_dst_x t \<le> X \<and> X < img_dst_x t + img_w t
                          \<and> img_dst_y t \<le> Y \<and> Y < img_dst_y t + img_h t)) tiles"
    by (rule assms(2))
  show "X < frame_width frame" "Y < frame_height frame"
    by (rule assms(3), rule assms(4))
qed

text \<open>The list that \<^verbatim>\<open>DrawSubtitles\<close> blends, and the place of a covered pixel.\<close>

lemma DrawSubtitles_rgba_list:
  assumes "ass_track prov = Some track" "renderer api"
    and "render_result = ass_render_frame_auto api track
           (renderer_tag_images (RegisterTagImages env api prov))
           (frame_width frame) (frame_height frame) time_ms"
    and "use_rgba render_result" "imgs_rgba render_result \<noteq> []"
  shows "snd (DrawSubtitles env api prov frame time_ms)
           = blend_tiles blend_rgba_tile (imgs_rgba render_result) frame"
proof -
  have "snd (DrawSubtitles env api prov frame time_ms) = composite render_result frame"
    unfolding DrawSubtitles_composite [OF assms(1,2)] assms(3) by simp
  then show ?thesis
    using assms(4,5) by (simp add: composite_def)
qed

lemma DrawSubtitles_mask_list:
  assumes "ass_track prov = Some track" "renderer api"
    and "render_result = ass_render_frame_auto api track
           (renderer_tag_images (RegisterTagImages env api prov))
           (frame_width frame) (frame_height frame) time_ms"
    and "\<not> (use_rgba render_result \<and> imgs_rgba render_result \<noteq> [])"
  shows "snd (DrawSubtitles env api prov frame time_ms)
           = blend_tiles blend_mask_tile (imgs render_result) frame"
proof -
  have "snd (DrawSubtitles env api prov frame time_ms) = composite render_result frame"
    unfolding DrawSubtitles_composite [OF assms(1,2)] assms(3) by simp
  then show ?thesis
    using assms(4) by (auto simp: composite_def)
qed

lemma blend_rgba_tile_covered_in_frame:
  assumes "blend_rgba_tile img frame = Some frame'" "x < rgba_w img" "y < rgba_h img"
  shows "rgba_dst_x img + x < frame_width frame'" "rgba_dst_y img + y < frame_height frame'"
proof -
  have "dst_in_bounds frame (rgba_dst_x img) (rgba_dst_y img) (rgba_w img) (rgba_h img)"
    using assms by (auto simp: blend_rgba_tile_def split: if_splits)
  then have "rgba_dst_x img + x < frame_width frame" "rgba_dst_y img + y < frame_height frame"
    using assms(2,3) by (auto simp: dst_in_bounds_def)
  then show "rgba_dst_x img + x < frame_width frame'" "rgba_dst_y img + y < frame_height frame'"
    using blend_rgba_tile_elsewhere(1) [OF assms(1)] by simp_all
qed

lemma blend_mask_tile_covered_in_frame:
  assumes "blend_mask_tile img frame = Some frame'" "x < img_w img" "y < img_h img"
  shows "img_dst_x img + x < frame_width frame'" "img_dst_y img + y < frame_height frame'"
proof -
  have "dst_in_bounds frame (img_dst_x img) (img_dst_y img) (img_w img) (img_h img)"
    using assms by (auto simp: blend_mask_tile_def Let_def split: if_splits)
  then have "img_dst_x img + x < frame_width frame" "img_dst_y img + y < frame_height frame"
    using assms(2,3) by (auto simp: dst_in_bounds_def)
  then show "img_dst_x img + x < frame_width frame'" "img_dst_y img + y < frame_height frame'"
    using blend_mask_tile_elsewhere(1) [OF assms(1)] by simp_all
qed

text \<open>
  Claim C1. Let \<^verbatim>\<open>DrawSubtitles\<close> draw with a track and a renderer, let the engine prefer
  its premultiplied-RGBA list, and take any tile of that list. The tiles before it are
  blended in list order, then this tile, then the tiles after it, and the last frame is
  the one \<^verbatim>\<open>DrawSubtitles\<close> leaves. For every pixel (x, y) of the tile, with the
  destination pixel (B, G, R, A) as the earlier tiles left it and the source pixel
  (R, G, B, A): each destination colour channel after the tile is the low byte of
  source + destination * (255 - source alpha) div 255, blue from blue, green from green
  and red from red across the two channel orders, and the destination alpha is 0; for a
  premultiplied source pixel (no channel above its alpha) the channel is exactly that
  sum; and the pixel keeps these values to the end unless a later tile covers it. An
  opaque 1x1 tile of colour (R=10, G=20, B=30) drawn on the pixel (200, 200, 200) gives
  (B=30, G=20, R=10) with alpha 0; the three sample tiles give the sample frame below.
\<close>

theorem DrawSubtitles_rgba_tiles:
  assumes "ass_track prov = Some track" and "renderer api"
    and "render_result = ass_render_frame_auto api track
           (renderer_tag_images (RegisterTagImages env api prov))
           (frame_width frame) (frame_height frame) time_ms"
    and "use_rgba render_result"
    and "imgs_rgba render_result = before @ img # after"
    and "snd (DrawSubtitles env api prov frame time_ms) = Some result"
  shows "(\<exists>frame_i frame_i'.
        blend_tiles blend_rgba_tile before frame = Some frame_i
      \<and> blend_rgba_tile img frame_i = Some frame_i'
      \<and> blend_tiles blend_rgba_tile after frame_i' = Some result
      \<and> (\<forall>x y db dg dr da sr sg sb sa b' g' r' a'.
            x < rgba_w img \<and> y < rgba_h img
            \<and> get_pixel frame_i (rgba_dst_x img + x) (rgba_dst_y img + y) = (db, dg, dr, da)
            \<and> rgba_pixel img x y = (sr, sg, sb, sa)
            \<and> get_pixel frame_i' (rgba_dst_x img + x) (rgba_dst_y img + y) = (b', g', r', a')
          \<longrightarrow> unat b' = (unat sb + unat db * (255 - unat sa) div 255) mod 256
              \<and> unat g' = (unat sg + unat dg * (255 - unat sa) div 255) mod 256
              \<and> unat r' = (unat sr + unat dr * (255 - unat sa) div 255) mod 256
              \<and> a' = 0
              \<and> (unat sb \<le> unat sa \<longrightarrow> unat b' = unat sb + unat db * (255 - unat sa) div 255)
              \<and> (unat sg \<le> unat sa \<longrightarrow> unat g' = unat sg + unat dg * (255 - unat sa) div 255)
              \<and> (unat sr \<le> unat sa \<longrightarrow> unat r' = unat sr + unat dr * (255 - unat sa) div 255)
              \<and> (list_all (\<lambda>t. \<not> (rgba_dst_x t \<le> rgba_dst_x img + x
                                    \<and> rgba_dst_x img + x < rgba_dst_x t + rgba_w t
                                    \<and> rgba_dst_y t \<le> rgba_dst_y img + y
                                    \<and> rgba_dst_y img + y < rgba_dst_y t + rgba_h t)) after
                   \<longrightarrow> get_pixel result (rgba_dst_x img + x) (rgba_dst_y img + y)
                         = (b', g', r', a'))))
     \<and> map_option frame_data
          (snd (DrawSubtitles sample_env
                  (sample_api\<lparr>ass_render_frame_auto :=
                     (\<lambda>track images w h ms.
                        \<lparr>imgs = [],
                         imgs_rgba = [\<lparr>rgba_w = 1, rgba_h = 1, rgba_stride = 4,
                                       rgba_rgba = [10, 20, 30, 255],
                                       rgba_dst_x = 0, rgba_dst_y = 0\<rparr>],
                         use_rgba = True\<rparr>)\<rparr>)
                  sample_provider
                  \<lparr>frame_width = 1, frame_height = 1, frame_data = [200, 200, 200, 77],
                   frame_flipped = False\<rparr> 0))
         = Some [30, 20, 10, 0]
     \<and> map_option frame_data
          (snd (DrawSubtitles sample_env (sample_render_api True) sample_provider sample_frame 0))
         = Some [1, 1, 1, 1, 2, 2, 2, 2, 31, 21, 11, 0, 45, 30, 15, 0]"
proof (intro conjI)
  have "blend_tiles blend_rgba_tile (before @ img # after) frame = Some result"
    using DrawSubtitles_rgba_list [OF assms(1,2,3,4)] assms(5,6) by simp
  then have "\<exists>frame_i frame_i'. blend_tiles blend_rgba_tile before frame = Some frame_i
      \<and> blend_rgba_tile img frame_i = Some frame_i'
      \<and> blend_tiles blend_rgba_tile after frame_i' = Some result"
    by (rule blend_tiles_split)
  then obtain frame_i where "\<exists>frame_i'. blend_tiles blend_rgba_tile before frame = Some frame_i
      \<and> blend_rgba_tile img frame_i = Some frame_i'
      \<and> blend_tiles blend_rgba_tile after frame_i' = Some result" ..
  then obtain frame_i' where parts: "blend_tiles blend_rgba_tile before frame = Some frame_i
      \<and> blend_rgba_tile img frame_i = Some frame_i'
      \<and> blend_tiles blend_rgba_tile after frame_i' = Some result" ..
  note fi = parts [THEN conjunct1]
  note tile = parts [THEN conjunct2, THEN conjunct1]
  note rest = parts [THEN conjunct2, THEN conjunct2]
  have px: "unat b' = (unat sb + unat db * (255 - unat sa) div 255) mod 256
              \<and> unat g' = (unat sg + unat dg * (255 - unat sa) div 255) mod 256
              \<and> unat r' = (unat sr + unat dr * (255 - unat sa) div 255) mod 256
              \<and> a' = 0
              \<and> (unat sb \<le> unat sa \<longrightarrow> unat b' = unat sb + unat db * (255 - unat sa) div 255)
              \<and> (unat sg \<le> unat sa \<longrightarrow> unat g' = unat sg + unat dg * (255 - unat sa) div 255)
              \<and> (unat sr \<le> unat sa \<longrightarrow> unat r' = unat sr + unat dr * (255 - unat sa) div 255)
              \<and> (list_all (\<lambda>t. \<not> (rgba_dst_x t \<le> rgba_dst_x img + x
                                    \<and> rgba_dst_x img + x < rgba_dst_x t + rgba_w t
                                    \<and> rgba_dst_y t \<le> rgba_dst_y img + y
                                    \<and> rgba_dst_y img + y < rgba_dst_y t + rgba_h t)) after
                   \<longrightarrow> get_pixel result (rgba_dst_x img + x) (rgba_dst_y img + y)
                         = (b', g', r', a'))"
    if h: "x < rgba_w img \<and> y < rgba_h img
            \<and> get_pixel frame_i (rgba_dst_x img + x) (rgba_dst_y img + y) = (db, dg, dr, da)
            \<and> rgba_pixel img x y = (sr, sg, sb, sa)
            \<and> get_pixel frame_i' (rgba_dst_x img + x) (rgba_dst_y img + y) = (b', g', r', a')"
    for x y db dg dr da sr sg sb sa b' g' r' a'
  proof -
    from h have hx: "x < rgba_w img" and hy: "y < rgba_h img"
      and h4: "get_pixel frame_i (rgba_dst_x img + x) (rgba_dst_y img + y) = (db, dg, dr, da)"
      and h5: "rgba_pixel img x y = (sr, sg, sb, sa)"
      and h6: "get_pixel frame_i' (rgba_dst_x img + x) (rgba_dst_y img + y) = (b', g', r', a')"
      by simp_all
    note vals = blend_rgba_tile_pixel_values [OF tile hx hy h4 h5 h6]
    note inside = blend_rgba_tile_covered_in_frame [OF tile hx hy]
    have later: "list_all (\<lambda>t. \<not> (rgba_dst_x t \<le> rgba_dst_x img + x
                                    \<and> rgba_dst_x img + x < rgba_dst_x t + rgba_w t
                                    \<and> rgba_dst_y t \<le> rgba_dst_y img + y
                                    \<and> rgba_dst_y img + y < rgba_dst_y t + rgba_h t)) after
                   \<longrightarrow> get_pixel result (rgba_dst_x img + x) (rgba_dst_y img + y)
                         = (b', g', r', a')"
    proof
      assume "list_all (\<lambda>t. \<not> (rgba_dst_x t \<le> rgba_dst_x img + x
                                    \<and> rgba_dst_x img + x < rgba_dst_x t + rgba_w t
                                    \<and> rgba_dst_y t \<le> rgba_dst_y img + y
                                    \<and> rgba_dst_y img + y < rgba_dst_y t + rgba_h t)) after"
      from blend_rgba_tiles_elsewhere [OF rest this inside]
      show "get_pixel result (rgba_dst_x img + x) (rgba_dst_y img + y) = (b', g', r', a')"
        by (simp only: h6)
    qed
    show ?thesis
      by (intro conjI vals [THEN conjunct1]
          vals [THEN conjunct2, THEN conjunct1]
          vals [THEN conjunct2, THEN conjunct2, THEN conjunct1]
          vals [THEN conjunct2, THEN conjunct2, THEN conjunct2, THEN conjunct1]
          vals [THEN conjunct2, THEN conjunct2, THEN conjunct2, THEN conjunct2, THEN conjunct1]
          vals [THEN conjunct2, THEN conjunct2, THEN conjunct2, THEN conjunct2, THEN conjunct2,
                THEN conjunct1]
          vals [THEN conjunct2, THEN conjunct2, THEN conjunct2, THEN conjunct2, THEN conjunct2,
                THEN conjunct2]
          later)
  qed
  let ?drawn = "\<lambda>frame_i frame_i'.
        blend_tiles blend_rgba_tile before frame = Some frame_i
      \<and> blend_rgba_tile img frame_i = Some frame_i'
      \<and> blend_tiles blend_rgba_tile after frame_i' = Some result
      \<and> (\<forall>x y db dg dr da sr sg sb sa b' g' r' a'.
            x < rgba_w img \<and> y < rgba_h img
            \<and> get_pixel frame_i (rgba_dst_x img + x) (rgba_dst_y img + y) = (db, dg, dr, da)
            \<and> rgba_pixel img x y = (sr, sg, sb, sa)
            \<and> get_pixel frame_i' (rgba_dst_x img + x) (rgba_dst_y img + y) = (b', g', r', a')
          \<longrightarrow> unat b' = (unat sb + unat db * (255 - unat sa) div 255) mod 256
              \<and> unat g' = (unat sg + unat dg * (255 - unat sa) div 255) mod 256
              \<and> unat r' = (unat sr + unat dr * (255 - unat sa) div 255) mod 256
              \<and> a' = 0
              \<and> (unat sb \<le> unat sa \<longrightarrow> unat b' = unat sb + unat db * (255 - unat sa) div 255)
              \<and> (unat sg \<le> unat sa \<longrightarrow> unat g' = unat sg + unat dg * (255 - unat sa) div 255)
              \<and> (unat sr \<le> unat sa \<longrightarrow> unat r' = unat sr + unat dr * (255 - unat sa) div 255)
              \<and> (list_all (\<lambda>t. \<not> (rgba_dst_x t \<le> rgba_dst_x img + x
                                    \<and> rgba_dst_x img + x < rgba_dst_x t + rgba_w t
                                    \<and> rgba_dst_y t \<le> rgba_dst_y img + y
                                    \<and> rgba_dst_y img + y < rgba_dst_y t + rgba_h t)) after
                   \<longrightarrow> get_pixel result (rgba_dst_x img + x) (rgba_dst_y img + y)
                         = (b', g', r', a')))"
  have "\<forall>x y db dg dr da sr sg sb sa b' g' r' a'.
            x < rgba_w img \<and> y < rgba_h img
            \<and> get_pixel frame_i (rgba_dst_x img + x) (rgba_dst_y img + y) = (db, dg, dr, da)
            \<and> rgba_pixel img x y = (sr, sg, sb, sa)
            \<and> get_pixel frame_i' (rgba_dst_x img + x) (rgba_dst_y img + y) = (b', g', r', a')
          \<longrightarrow> unat b' = (unat sb + unat db * (255 - unat sa) div 255) mod 256
              \<and> unat g' = (unat sg + unat dg * (255 - unat sa) div 255) mod 256
              \<and> unat r' = (unat sr + unat dr * (255 - unat sa) div 255) mod 256
              \<and> a' = 0
              \<and> (unat sb \<le> unat sa \<longrightarrow> unat b' = unat sb + unat db * (255 - unat sa) div 255)
              \<and> (unat sg \<le> unat sa \<longrightarrow> unat g' = unat sg + unat dg * (255 - unat sa) div 255)
              \<and> (unat sr \<le> unat sa \<longrightarrow> unat r' = unat sr + unat dr * (255 - unat sa) div 255)
              \<and> (list_all (\<lambda>t. \<not> (rgba_dst_x t \<le> rgba_dst_x img + x
                                    \<and> rgba_dst_x img + x < rgba_dst_x t + rgba_w t
                                    \<and> rgba_dst_y t \<le> rgba_dst_y img + y
                                    \<and> rgba_dst_y img + y < rgba_dst_y t + rgba_h t)) after
                   \<longrightarrow> get_pixel result (rgba_dst_x img + x) (rgba_dst_y img + y)
                         = (b', g', r', a'))"
    by (intro allI impI, rule px, assumption)
  with parts have "?drawn frame_i frame_i'"
    by (intro conjI) (erule conjunct1, erule conjunct2 [THEN conjunct1],
        erule conjunct2 [THEN conjunct2], assumption)
  then have "\<exists>frame_i'. ?drawn frame_i frame_i'"
    by (rule exI [where P = "?drawn frame_i" and x = frame_i'])
  then show "\<exists>frame_i frame_i'. ?drawn frame_i frame_i'"
    by (rule exI [where P = "\<lambda>f. \<exists>frame_i'. ?drawn f frame_i'" and x = frame_i])
next
  show "map_option frame_data
          (snd (DrawSubtitles sample_env
                  (sample_api\<lparr>ass_render_frame_auto :=
                     (\<lambda>track images w h ms.
                        \<lparr>imgs = [],
                         imgs_rgba = [\<lparr>rgba_w = 1, rgba_h = 1, rgba_stride = 4,
                                       rgba_rgba = [10, 20, 30, 255],
                                       rgba_dst_x = 0, rgba_dst_y = 0\<rparr>],
                         use_rgba = True\<rparr>)\<rparr>)
                  sample_provider
                  \<lparr>frame_width = 1, frame_height = 1, frame_data = [200, 200, 200, 77],
                   frame_flipped = False\<rparr> 0))
         = Some [30, 20, 10, 0]"
    by code_simp
next
  show "map_option frame_data
          (snd (DrawSubtitles sample_env (sample_render_api True) sample_provider sample_frame 0))
         = Some [1, 1, 1, 1, 2, 2, 2, 2, 31, 21, 11, 0, 45, 30, 15, 0]"
    by code_simp
qed

text \<open>
  A use of the theorem on the sample engine: the second of its three premultiplied tiles,
  which finds the pixel (31, 22, 12) left by the first and leaves (45, 30, 15); the third
  tile lies elsewhere.
\<close>

theorem DrawSubtitles_rgba_tiles_witness:
  "ass_track sample_provider = Some 1 \<and> renderer (sample_render_api True)
   \<and> use_rgba (ass_render_frame_auto (sample_render_api True) 1
        (renderer_tag_images (RegisterTagImages sample_env (sample_render_api True) sample_provider))
        (frame_width sample_frame) (frame_height sample_frame) 0)
   \<and> imgs_rgba (ass_render_frame_auto (sample_render_api True) 1
        (renderer_tag_images (RegisterTagImages sample_env (sample_render_api True) sample_provider))
        (frame_width sample_frame) (frame_height sample_frame) 0)
      = [sample_rgba_tile] @ sample_rgba_tile # [sample_rgba_tile\<lparr>rgba_dst_x := 0\<rparr>]
   \<and> snd (DrawSubtitles sample_env (sample_render_api True) sample_provider sample_frame 0)
      = Some (sample_frame\<lparr>frame_data := [1, 1, 1, 1, 2, 2, 2, 2, 31, 21, 11, 0, 45, 30, 15, 0]\<rparr>)
   \<and> blend_tiles blend_rgba_tile [sample_rgba_tile] sample_frame
      = Some (sample_frame\<lparr>frame_data := [1, 1, 1, 1, 2, 2, 2, 2, 3, 3, 3, 3, 31, 22, 12, 0]\<rparr>)
   \<and> blend_rgba_tile sample_rgba_tile
        (sample_frame\<lparr>frame_data := [1, 1, 1, 1, 2, 2, 2, 2, 3, 3, 3, 3, 31, 22, 12, 0]\<rparr>)
      = Some (sample_frame\<lparr>frame_data := [1, 1, 1, 1, 2, 2, 2, 2, 3, 3, 3, 3, 45, 30, 15, 0]\<rparr>)
   \<and> ((0::nat) < rgba_w sample_rgba_tile \<and> (0::nat) < rgba_h sample_rgba_tile
      \<and> get_pixel (sample_frame\<lparr>frame_data := [1, 1, 1, 1, 2, 2, 2, 2, 3, 3, 3, 3, 31, 22, 12, 0]\<rparr>)
          (rgba_dst_x sample_rgba_tile + 0) (rgba_dst_y sample_rgba_tile + 0) = (31, 22, 12, 0)
      \<and> rgba_pixel sample_rgba_tile 0 0 = (10, 20, 30, 128)
      \<and> get_pixel (sample_frame\<lparr>frame_data := [1, 1, 1, 1, 2, 2, 2, 2, 3, 3, 3, 3, 45, 30, 15, 0]\<rparr>)
          (rgba_dst_x sample_rgba_tile + 0) (rgba_dst_y sample_rgba_tile + 0) = (45, 30, 15, 0))
   \<and> unat (30 :: byte) \<le> unat (128 :: byte)
   \<and> list_all (\<lambda>t. \<not> (rgba_dst_x t \<le> rgba_dst_x sample_rgba_tile + 0
                        \<and> rgba_dst_x sample_rgba_tile + 0 < rgba_dst_x t + rgba_w t
                        \<and> rgba_dst_y t \<le> rgba_dst_y sample_rgba_tile + 0
                        \<and> rgba_dst_y sample_rgba_tile + 0 < rgba_dst_y t + rgba_h t))
        [sample_rgba_tile\<lparr>rgba_dst_x := 0\<rparr>]
   \<and> unat (45 :: byte) = unat (30 :: byte) + unat (31 :: byte) * (255 - unat (128 :: byte)) div 255
   \<and> get_pixel (sample_frame\<lparr>frame_data := [1, 1, 1, 1, 2, 2, 2, 2, 31, 21, 11, 0, 45, 30, 15, 0]\<rparr>)
        (rgba_dst_x sample_rgba_tile + 0) (rgba_dst_y sample_rgba_tile + 0) = (45, 30, 15, 0)"
proof -
  let ?f1 = "sample_frame\<lparr>frame_data := [1, 1, 1, 1, 2, 2, 2, 2, 3, 3, 3, 3, 31, 22, 12, 0]\<rparr>"
  let ?f2 = "sample_frame\<lparr>frame_data := [1, 1, 1, 1, 2, 2, 2, 2, 3, 3, 3, 3, 45, 30, 15, 0]\<rparr>"
  let ?res = "sample_frame\<lparr>frame_data := [1, 1, 1, 1, 2, 2, 2, 2, 31, 21, 11, 0, 45, 30, 15, 0]\<rparr>"
  have h1: "ass_track sample_provider = Some 1"
    by (simp add: sample_provider_def)
  have h2: "renderer (sample_render_api True)"
    by (simp add: sample_render_api_def sample_api_def)
  have h4: "use_rgba (ass_render_frame_auto (sample_render_api True) 1
        (renderer_tag_images (RegisterTagImages sample_env (sample_render_api True) sample_provider))
        (frame_width sample_frame) (frame_height sample_frame) 0)"
    by (simp add: sample_render_api_def)
  have h5: "imgs_rgba (ass_render_frame_auto (sample_render_api True) 1
        (renderer_tag_images (RegisterTagImages sample_env (sample_render_api True) sample_provider))
        (frame_width sample_frame) (frame_height sample_frame) 0)
      = [sample_rgba_tile] @ sample_rgba_tile # [sample_rgba_tile\<lparr>rgba_dst_x := 0\<rparr>]"
    by (simp add: sample_render_api_def)
  have h6: "snd (DrawSubtitles sample_env (sample_render_api True) sample_provider sample_frame 0)
      = Some ?res"
    by code_simp
  have e1: "blend_tiles blend_rgba_tile [sample_rgba_tile] sample_frame = Some ?f1"
    by code_simp
  have e2: "blend_rgba_tile sample_rgba_tile ?f1 = Some ?f2"
    by code_simp
  have prem: "(0::nat) < rgba_w sample_rgba_tile \<and> (0::nat) < rgba_h sample_rgba_tile
      \<and> get_pixel ?f1 (rgba_dst_x sample_rgba_tile + 0) (rgba_dst_y sample_rgba_tile + 0)
          = (31, 22, 12, 0)
      \<and> rgba_pixel sample_rgba_tile 0 0 = (10, 20, 30, 128)
      \<and> get_pixel ?f2 (rgba_dst_x sample_rgba_tile + 0) (rgba_dst_y sample_rgba_tile + 0)
          = (45, 30, 15, 0)"
    by code_simp
  have pm: "unat (30 :: byte) \<le> unat (128 :: byte)"
    by simp
  have la: "list_all (\<lambda>t. \<not> (rgba_dst_x t \<le> rgba_dst_x sample_rgba_tile + 0
                        \<and> rgba_dst_x sample_rgba_tile + 0 < rgba_dst_x t + rgba_w t
                        \<and> rgba_dst_y t \<le> rgba_dst_y sample_rgba_tile + 0
                        \<and> rgba_dst_y sample_rgba_tile + 0 < rgba_dst_y t + rgba_h t))
        [sample_rgba_tile\<lparr>rgba_dst_x := 0\<rparr>]"
    by (simp add: sample_rgba_tile_def)
  from DrawSubtitles_rgba_tiles [OF h1 h2 refl h4 h5 h6, THEN conjunct1]
  obtain frame_i frame_i' where
    fi: "blend_tiles blend_rgba_tile [sample_rgba_tile] sample_frame = Some frame_i"
    and fi': "blend_rgba_tile sample_rgba_tile frame_i = Some frame_i'"
    and px: "\<forall>x y db dg dr da sr sg sb sa b' g' r' a'.
            x < rgba_w sample_rgba_tile \<and> y < rgba_h sample_rgba_tile
            \<and> get_pixel frame_i (rgba_dst_x sample_rgba_tile + x) (rgba_dst_y sample_rgba_tile + y)
                = (db, dg, dr, da)
            \<and> rgba_pixel sample_rgba_tile x y = (sr, sg, sb, sa)
            \<and> get_pixel frame_i' (rgba_dst_x sample_rgba_tile + x) (rgba_dst_y sample_rgba_tile + y)
                = (b', g', r', a')
          \<longrightarrow> unat b' = (unat sb + unat db * (255 - unat sa) div 255) mod 256
              \<and> unat g' = (unat sg + unat dg * (255 - unat sa) div 255) mod 256
              \<and> unat r' = (unat sr + unat dr * (255 - unat sa) div 255) mod 256
              \<and> a' = 0
              \<and> (unat sb \<le> unat sa \<longrightarrow> unat b' = unat sb + unat db * (255 - unat sa) div 255)
              \<and> (unat sg \<le> unat sa \<longrightarrow> unat g' = unat sg + unat dg * (255 - unat sa) div 255)
              \<and> (unat sr \<le> unat sa \<longrightarrow> unat r' = unat sr + unat dr * (255 - unat sa) div 255)
              \<and> (list_all (\<lambda>t. \<not> (rgba_dst_x t \<le> rgba_dst_x sample_rgba_tile + x
                                    \<and> rgba_dst_x sample_rgba_tile + x < rgba_dst_x t + rgba_w t
                                    \<and> rgba_dst_y t \<le> rgba_dst_y sample_rgba_tile + y
                                    \<and> rgba_dst_y sample_rgba_tile + y < rgba_dst_y t + rgba_h t))
                     [sample_rgba_tile\<lparr>rgba_dst_x := 0\<rparr>]
                   \<longrightarrow> get_pixel ?res (rgba_dst_x sample_rgba_tile + x)
                         (rgba_dst_y sample_rgba_tile + y) = (b', g', r', a'))"
    by (elim exE conjE)
  from fi e1 have f1: "frame_i = ?f1"
    by simp
  from fi' e2 have f2: "frame_i' = ?f2"
    by (simp add: f1)
  note vals = px [unfolded f1 f2, rule_format, OF prem]
  have bl: "unat (45 :: byte) = unat (30 :: byte) + unat (31 :: byte) * (255 - unat (128 :: byte)) div 255"
    by (rule vals [THEN conjunct2, THEN conjunct2, THEN conjunct2, THEN conjunct2,
        THEN conjunct1, THEN mp, OF pm])
  have fin: "get_pixel ?res (rgba_dst_x sample_rgba_tile + 0) (rgba_dst_y sample_rgba_tile + 0)
      = (45, 30, 15, 0)"
    by (rule vals [THEN conjunct2, THEN conjunct2, THEN conjunct2, THEN conjunct2,
        THEN conjunct2, THEN conjunct2, THEN conjunct2, THEN mp, OF la])
  show ?thesis
    by (intro conjI h1 h2 h4 h5 h6 e1 e2 prem [THEN conjunct1]
        prem [THEN conjunct2, THEN conjunct1]
        prem [THEN conjunct2, THEN conjunct2, THEN conjunct1]
        prem [THEN conjunct2, THEN conjunct2, THEN conjunct2, THEN conjunct1]
        prem [THEN conjunct2, THEN conjunct2, THEN conjunct2, THEN conjunct2]
        pm la bl fin)
qed

text \<open>
  Claim C2. Let \<^verbatim>\<open>DrawSubtitles\<close> draw with a track and a renderer, let the engine not
  prefer a premultiplied-RGBA list (or have none), and take any tile of the alpha-mask
  list, with packed colour c. The tiles before it are blended in list order, then this
  tile, then the tiles after it, and the last frame is the one \<^verbatim>\<open>DrawSubtitles\<close> leaves.
  For every pixel (x, y) of the tile, with the destination pixel (B, G, R, A) as the
  earlier tiles left it: with opacity = 255 - (c mod 256), r, g and b the bytes of c at
  bits 24-31, 16-23 and 8-15, and k = mask value * opacity div 255, each destination
  colour channel after the tile is (k * tile colour + (255 - k) * destination) div 255,
  blue with b, green with g and red with r, and the destination alpha is 0; and the pixel
  keeps these values to the end unless a later tile covers it. Mask 255 with opacity 255
  and colour (1, 2, 3) drawn on the pixel (9, 9, 9) gives (B=3, G=2, R=1); the three
  sample tiles give the sample frame below.
\<close>

theorem DrawSubtitles_mask_tiles:
  assumes "ass_track prov = Some track" and "renderer api"
    and "render_result = ass_render_frame_auto api track
           (renderer_tag_images (RegisterTagImages env api prov))
           (frame_width frame) (frame_height frame) time_ms"
    and "\<not> (use_rgba render_result \<and> imgs_rgba render_result \<noteq> [])"
    and "imgs render_result = before @ img # after"
    and "snd (DrawSubtitles env api prov frame time_ms) = Some result"
  shows "(\<exists>frame_i frame_i'.
        blend_tiles blend_mask_tile before frame = Some frame_i
      \<and> blend_mask_tile img frame_i = Some frame_i'
      \<and> blend_tiles blend_mask_tile after frame_i' = Some result
      \<and> (\<forall>x y db dg dr da b' g' r' a' opacity r g b k.
            x < img_w img \<and> y < img_h img
            \<and> get_pixel frame_i (img_dst_x img + x) (img_dst_y img + y) = (db, dg, dr, da)
            \<and> get_pixel frame_i' (img_dst_x img + x) (img_dst_y img + y) = (b', g', r', a')
            \<and> opacity = 255 - unat (img_color img) mod 256
            \<and> r = unat (img_color img) div 2 ^ 24
            \<and> g = unat (img_color img) div 2 ^ 16 mod 256
            \<and> b = unat (img_color img) div 2 ^ 8 mod 256
            \<and> k = unat (mask_pixel img x y) * opacity div 255
          \<longrightarrow> unat b' = (k * b + (255 - k) * unat db) div 255
              \<and> unat g' = (k * g + (255 - k) * unat dg) div 255
              \<and> unat r' = (k * r + (255 - k) * unat dr) div 255
              \<and> a' = 0
              \<and> (list_all (\<lambda>t. \<not> (img_dst_x t \<le> img_dst_x img + x
                                    \<and> img_dst_x img + x < img_dst_x t + img_w t
                                    \<and> img_dst_y t \<le> img_dst_y img + y
                                    \<and> img_dst_y img + y < img_dst_y t + img_h t)) after
                   \<longrightarrow> get_pixel result (img_dst_x img + x) (img_dst_y img + y)
                         = (b', g', r', a'))))
     \<and> map_option frame_data
          (snd (DrawSubtitles sample_env
                  (sample_api\<lparr>ass_render_frame_auto :=
                     (\<lambda>track images w h ms.
                        \<lparr>imgs = [\<lparr>img_w = 1, img_h = 1, img_stride = 1, img_bitmap = [255],
                                  img_color = 0x01020300, img_dst_x = 0, img_dst_y = 0\<rparr>],
                         imgs_rgba = [],
                         use_rgba = False\<rparr>)\<rparr>)
                  sample_provider
                  \<lparr>frame_width = 1, frame_height = 1, frame_data = [9, 9, 9, 77],
                   frame_flipped = False\<rparr> 0))
         = Some [3, 2, 1, 0]
     \<and> map_option frame_data
          (snd (DrawSubtitles sample_env (sample_render_api False) sample_provider sample_frame 0))
         = Some [1, 1, 1, 1, 2, 2, 2, 2, 16, 11, 6, 0, 19, 13, 8, 0]"
proof (intro conjI)
  have "blend_tiles blend_mask_tile (before @ img # after) frame = Some result"
    using DrawSubtitles_mask_list [OF assms(1,2,3,4)] assms(5,6) by simp
  then have "\<exists>frame_i frame_i'. blend_tiles blend_mask_tile before frame = Some frame_i
      \<and> blend_mask_tile img frame_i = Some frame_i'
      \<and> blend_tiles blend_mask_tile after frame_i' = Some result"
    by (rule blend_tiles_split)
  then obtain frame_i where "\<exists>frame_i'. blend_tiles blend_mask_tile before frame = Some frame_i
      \<and> blend_mask_tile img frame_i = Some frame_i'
      \<and> blend_tiles blend_mask_tile after frame_i' = Some result" ..
  then obtain frame_i' where parts: "blend_tiles blend_mask_tile before frame = Some frame_i
      \<and> blend_mask_tile img frame_i = Some frame_i'
      \<and> blend_tiles blend_mask_tile after frame_i' = Some result" ..
  note fi = parts [THEN conjunct1]
  note tile = parts [THEN conjunct2, THEN conjunct1]
  note rest = parts [THEN conjunct2, THEN conjunct2]
  have px: "unat b' = (k * b + (255 - k) * unat db) div 255
              \<and> unat g' = (k * g + (255 - k) * unat dg) div 255
              \<and> unat r' = (k * r + (255 - k) * unat dr) div 255
              \<and> a' = 0
              \<and> (list_all (\<lambda>t. \<not> (img_dst_x t \<le> img_dst_x img + x
                                    \<and> img_dst_x img + x < img_dst_x t + img_w t
                                    \<and> img_dst_y t \<le> img_dst_y img + y
                                    \<and> img_dst_y img + y < img_dst_y t + img_h t)) after
                   \<longrightarrow> get_pixel result (img_dst_x img + x) (img_dst_y img + y)
                         = (b', g', r', a'))"
    if h: "x < img_w img \<and> y < img_h img
            \<and> get_pixel frame_i (img_dst_x img + x) (img_dst_y img + y) = (db, dg, dr, da)
            \<and> get_pixel frame_i' (img_dst_x img + x) (img_dst_y img + y) = (b', g', r', a')
            \<and> opacity = 255 - unat (img_color img) mod 256
            \<and> r = unat (img_color img) div 2 ^ 24
            \<and> g = unat (img_color img) div 2 ^ 16 mod 256
            \<and> b = unat (img_color img) div 2 ^ 8 mod 256
            \<and> k = unat (mask_pixel img x y) * opacity div 255"
    for x y db dg dr da b' g' r' a' opacity r g b k
  proof -
    from h have hx: "x < img_w img" and hy: "y < img_h img"
      and h4: "get_pixel frame_i (img_dst_x img + x) (img_dst_y img + y) = (db, dg, dr, da)"
      and h5: "get_pixel frame_i' (img_dst_x img + x) (img_dst_y img + y) = (b', g', r', a')"
      and h6: "opacity = 255 - unat (img_color img) mod 256"
      and h7: "r = unat (img_color img) div 2 ^ 24"
      and h8: "g = unat (img_color img) div 2 ^ 16 mod 256"
      and h9: "b = unat (img_color img) div 2 ^ 8 mod 256"
      and h10: "k = unat (mask_pixel img x y) * opacity div 255"
      by simp_all
    note vals = blend_mask_tile_pixel_values [OF tile hx hy h4 h5 h6 h7 h8 h9 h10]
    note inside = blend_mask_tile_covered_in_frame [OF tile hx hy]
    have later: "list_all (\<lambda>t. \<not> (img_dst_x t \<le> img_dst_x img + x
                                    \<and> img_dst_x img + x < img_dst_x t + img_w t
                                    \<and> img_dst_y t \<le> img_dst_y img + y
                                    \<and> img_dst_y img + y < img_dst_y t + img_h t)) after
                   \<longrightarrow> get_pixel result (img_dst_x img + x) (img_dst_y img + y)
                         = (b', g', r', a')"
    proof
      assume "list_all (\<lambda>t. \<not> (img_dst_x t \<le> img_dst_x img + x
                                    \<and> img_dst_x img + x < img_dst_x t + img_w t
                                    \<and> img_dst_y t \<le> img_dst_y img + y
                                    \<and> img_dst_y img + y < img_dst_y t + img_h t)) after"
      from blend_mask_tiles_elsewhere [OF rest this inside]
      show "get_pixel result (img_dst_x img + x) (img_dst_y img + y) = (b', g', r', a')"
        by (simp only: h5)
    qed
    show ?thesis
      by (intro conjI vals [THEN conjunct1]
          vals [THEN conjunct2, THEN conjunct1]
          vals [THEN conjunct2, THEN conjunct2, THEN conjunct1]
          vals [THEN conjunct2, THEN conjunct2, THEN conjunct2]
          later)
  qed
  let ?drawn = "\<lambda>frame_i frame_i'.
        blend_tiles blend_mask_tile before frame = Some frame_i
      \<and> blend_mask_tile img frame_i = Some frame_i'
      \<and> blend_tiles blend_mask_tile after frame_i' = Some result
      \<and> (\<forall>x y db dg dr da b' g' r' a' opacity r g b k.
            x < img_w img \<and> y < img_h img
            \<and> get_pixel frame_i (img_dst_x img + x) (img_dst_y img + y) = (db, dg, dr, da)
            \<and> get_pixel frame_i' (img_dst_x img + x) (img_dst_y img + y) = (b', g', r', a')
            \<and> opacity = 255 - unat (img_color img) mod 256
            \<and> r = unat (img_color img) div 2 ^ 24
            \<and> g = unat (img_color img) div 2 ^ 16 mod 256
            \<and> b = unat (img_color img) div 2 ^ 8 mod 256
            \<and> k = unat (mask_pixel img x y) * opacity div 255
          \<longrightarrow> unat b' = (k * b + (255 - k) * unat db) div 255
              \<and> unat g' = (k * g + (255 - k) * unat dg) div 255
              \<and> unat r' = (k * r + (255 - k) * unat dr) div 255
              \<and> a' = 0
              \<and> (list_all (\<lambda>t. \<not> (img_dst_x t \<le> img_dst_x img + x
                                    \<and> img_dst_x img + x < img_dst_x t + img_w t
                                    \<and> img_dst_y t \<le> img_dst_y img + y
                                    \<and> img_dst_y img + y < img_dst_y t + img_h t)) after
                   \<longrightarrow> get_pixel result (img_dst_x img + x) (img_dst_y img + y)
                         = (b', g', r', a')))"
  have "\<forall>x y db dg dr da b' g' r' a' opacity r g b k.
            x < img_w img \<and> y < img_h img
            \<and> get_pixel frame_i (img_dst_x img + x) (img_dst_y img + y) = (db, dg, dr, da)
            \<and> get_pixel frame_i' (img_dst_x img + x) (img_dst_y img + y) = (b', g', r', a')
            \<and> opacity = 255 - unat (img_color img) mod 256
            \<and> r = unat (img_color img) div 2 ^ 24
            \<and> g = unat (img_color img) div 2 ^ 16 mod 256
            \<and> b = unat (img_color img) div 2 ^ 8 mod 256
            \<and> k = unat (mask_pixel img x y) * opacity div 255
          \<longrightarrow> unat b' = (k * b + (255 - k) * unat db) div 255
              \<and> unat g' = (k * g + (255 - k) * unat dg) div 255
              \<and> unat r' = (k * r + (255 - k) * unat dr) div 255
              \<and> a' = 0
              \<and> (list_all (\<lambda>t. \<not> (img_dst_x t \<le> img_dst_x img + x
                                    \<and> img_dst_x img + x < img_dst_x t + img_w t
                                    \<and> img_dst_y t \<le> img_dst_y img + y
                                    \<and> img_dst_y img + y < img_dst_y t + img_h t)) after
                   \<longrightarrow> get_pixel result (img_dst_x img + x) (img_dst_y img + y)
                         = (b', g', r', a'))"
    by (intro allI impI, rule px, assumption)
  with parts have "?drawn frame_i frame_i'"
    by (intro conjI) (erule conjunct1, erule conjunct2 [THEN conjunct1],
        erule conjunct2 [THEN conjunct2], assumption)
  then have "\<exists>frame_i'. ?drawn frame_i frame_i'"
    by (rule exI [where P = "?drawn frame_i" and x = frame_i'])
  then show "\<exists>frame_i frame_i'. ?drawn frame_i frame_i'"
    by (rule exI [where P = "\<lambda>f. \<exists>frame_i'. ?drawn f frame_i'" and x = frame_i])
next
  show "map_option frame_data
          (snd (DrawSubtitles sample_env
                  (sample_api\<lparr>ass_render_frame_auto :=
                     (\<lambda>track images w h ms.
                        \<lparr>imgs = [\<lparr>img_w = 1, img_h = 1, img_stride = 1, img_bitmap = [255],
                                  img_color = 0x01020300, img_dst_x = 0, img_dst_y = 0\<rparr>],
                         imgs_rgba = [],
                         use_rgba = False\<rparr>)\<rparr>)
                  sample_provider
                  \<lparr>frame_width = 1, frame_height = 1, frame_data = [9, 9, 9, 77],
                   frame_flipped = False\<rparr> 0))
         = Some [3, 2, 1, 0]"
    by code_simp
next
  show "map_option frame_data
          (snd (DrawSubtitles sample_env (sample_render_api False) sample_provider sample_frame 0))
         = Some [1, 1, 1, 1, 2, 2, 2, 2, 16, 11, 6, 0, 19, 13, 8, 0]"
    by code_simp
qed

text \<open>
  A use of the theorem on the sample engine: the second of its three alpha-mask tiles
  (mask 255, opacity 128, so k = 128, colour (10, 20, 30)), which finds the pixel (9, 7, 6)
  left by the first and leaves (19, 13, 8); the third tile lies elsewhere.
\<close>

theorem DrawSubtitles_mask_tiles_witness:
  "ass_track sample_provider = Some 1 \<and> renderer (sample_render_api False)
   \<and> \<not> (use_rgba (ass_render_frame_auto (sample_render_api False) 1
        (renderer_tag_images (RegisterTagImages sample_env (sample_render_api False) sample_provider))
        (frame_width sample_frame) (frame_height sample_frame) 0) \<and> imgs_rgba (ass_render_frame_auto (sample_render_api False) 1
        (renderer_tag_images (RegisterTagImages sample_env (sample_render_api False) sample_provider))
        (frame_width sample_frame) (frame_height sample_frame) 0) \<noteq> [])
   \<and> imgs (ass_render_frame_auto (sample_render_api False) 1
        (renderer_tag_images (RegisterTagImages sample_env (sample_render_api False) sample_provider))
        (frame_width sample_frame) (frame_height sample_frame) 0) = [sample_mask_tile 100] @ sample_mask_tile 255 # [(sample_mask_tile 255)\<lparr>img_dst_x := 0\<rparr>]
   \<and> snd (DrawSubtitles sample_env (sample_render_api False) sample_provider sample_frame 0) = Some (sample_frame\<lparr>frame_data := [1, 1, 1, 1, 2, 2, 2, 2, 16, 11, 6, 0, 19, 13, 8, 0]\<rparr>)
   \<and> blend_tiles blend_mask_tile [sample_mask_tile 100] sample_frame = Some (sample_frame\<lparr>frame_data := [1, 1, 1, 1, 2, 2, 2, 2, 3, 3, 3, 3, 9, 7, 6, 0]\<rparr>)
   \<and> blend_mask_tile (sample_mask_tile 255) (sample_frame\<lparr>frame_data := [1, 1, 1, 1, 2, 2, 2, 2, 3, 3, 3, 3, 9, 7, 6, 0]\<rparr>) = Some (sample_frame\<lparr>frame_data := [1, 1, 1, 1, 2, 2, 2, 2, 3, 3, 3, 3, 19, 13, 8, 0]\<rparr>)
   \<and> ((0::nat) < img_w (sample_mask_tile 255) \<and> (0::nat) < img_h (sample_mask_tile 255)
      \<and> get_pixel (sample_frame\<lparr>frame_data := [1, 1, 1, 1, 2, 2, 2, 2, 3, 3, 3, 3, 9, 7, 6, 0]\<rparr>) (img_dst_x (sample_mask_tile 255) + 0) (img_dst_y (sample_mask_tile 255) + 0) = (9, 7, 6, 0)
      \<and> get_pixel (sample_frame\<lparr>frame_data := [1, 1, 1, 1, 2, 2, 2, 2, 3, 3, 3, 3, 19, 13, 8, 0]\<rparr>) (img_dst_x (sample_mask_tile 255) + 0) (img_dst_y (sample_mask_tile 255) + 0) = (19, 13, 8, 0)
      \<and> (128::nat) = 255 - unat (img_color (sample_mask_tile 255)) mod 256
      \<and> (10::nat) = unat (img_color (sample_mask_tile 255)) div 2 ^ 24
      \<and> (20::nat) = unat (img_color (sample_mask_tile 255)) div 2 ^ 16 mod 256
      \<and> (30::nat) = unat (img_color (sample_mask_tile 255)) div 2 ^ 8 mod 256
      \<and> (128::nat) = unat (mask_pixel (sample_mask_tile 255) 0 0) * 128 div 255)
   \<and> list_all (\<lambda>t. \<not> (img_dst_x t \<le> img_dst_x (sample_mask_tile 255) + 0
                        \<and> img_dst_x (sample_mask_tile 255) + 0 < img_dst_x t + img_w t
                        \<and> img_dst_y t \<le> img_dst_y (sample_mask_tile 255) + 0
                        \<and> img_dst_y (sample_mask_tile 255) + 0 < img_dst_y t + img_h t))
        [(sample_mask_tile 255)\<lparr>img_dst_x := 0\<rparr>]
   \<and> unat (19 :: byte) = (128 * 30 + (255 - 128) * unat (9 :: byte)) div 255
   \<and> get_pixel (sample_frame\<lparr>frame_data := [1, 1, 1, 1, 2, 2, 2, 2, 16, 11, 6, 0, 19, 13, 8, 0]\<rparr>)
        (img_dst_x (sample_mask_tile 255) + 0) (img_dst_y (sample_mask_tile 255) + 0) = (19, 13, 8, 0)"
proof -
  have h1: "ass_track sample_provider = Some 1"
    by (simp add: sample_provider_def)
  have h2: "renderer (sample_render_api False)"
    by (simp add: sample_render_api_def sample_api_def)
  have h4: "\<not> (use_rgba (ass_render_frame_auto (sample_render_api False) 1
        (renderer_tag_images (RegisterTagImages sample_env (sample_render_api False) sample_provider))
        (frame_width sample_frame) (frame_height sample_frame) 0) \<and> imgs_rgba (ass_render_frame_auto (sample_render_api False) 1
        (renderer_tag_images (RegisterTagImages sample_env (sample_render_api False) sample_provider))
        (frame_width sample_frame) (frame_height sample_frame) 0) \<noteq> [])"
    by (simp add: sample_render_api_def)
  have h5: "imgs (ass_render_frame_auto (sample_render_api False) 1
        (renderer_tag_images (RegisterTagImages sample_env (sample_render_api False) sample_provider))
        (frame_width sample_frame) (frame_height sample_frame) 0) = [sample_mask_tile 100] @ sample_mask_tile 255 # [(sample_mask_tile 255)\<lparr>img_dst_x := 0\<rparr>]"
    by (simp add: sample_render_api_def)
  have h6: "snd (DrawSubtitles sample_env (sample_render_api False) sample_provider sample_frame 0) = Some (sample_frame\<lparr>frame_data := [1, 1, 1, 1, 2, 2, 2, 2, 16, 11, 6, 0, 19, 13, 8, 0]\<rparr>)"
    by code_simp
  have e1: "blend_tiles blend_mask_tile [sample_mask_tile 100] sample_frame = Some (sample_frame\<lparr>frame_data := [1, 1, 1, 1, 2, 2, 2, 2, 3, 3, 3, 3, 9, 7, 6, 0]\<rparr>)"
    by code_simp
  have e2: "blend_mask_tile (sample_mask_tile 255) (sample_frame\<lparr>frame_data := [1, 1, 1, 1, 2, 2, 2, 2, 3, 3, 3, 3, 9, 7, 6, 0]\<rparr>) = Some (sample_frame\<lparr>frame_data := [1, 1, 1, 1, 2, 2, 2, 2, 3, 3, 3, 3, 19, 13, 8, 0]\<rparr>)"
    by code_simp
  have prem: "(0::nat) < img_w (sample_mask_tile 255) \<and> (0::nat) < img_h (sample_mask_tile 255)
      \<and> get_pixel (sample_frame\<lparr>frame_data := [1, 1, 1, 1, 2, 2, 2, 2, 3, 3, 3, 3, 9, 7, 6, 0]\<rparr>) (img_dst_x (sample_mask_tile 255) + 0) (img_dst_y (sample_mask_tile 255) + 0) = (9, 7, 6, 0)
      \<and> get_pixel (sample_frame\<lparr>frame_data := [1, 1, 1, 1, 2, 2, 2, 2, 3, 3, 3, 3, 19, 13, 8, 0]\<rparr>) (img_dst_x (sample_mask_tile 255) + 0) (img_dst_y (sample_mask_tile 255) + 0) = (19, 13, 8, 0)
      \<and> (128::nat) = 255 - unat (img_color (sample_mask_tile 255)) mod 256
      \<and> (10::nat) = unat (img_color (sample_mask_tile 255)) div 2 ^ 24
      \<and> (20::nat) = unat (img_color (sample_mask_tile 255)) div 2 ^ 16 mod 256
      \<and> (30::nat) = unat (img_color (sample_mask_tile 255)) div 2 ^ 8 mod 256
      \<and> (128::nat) = unat (mask_pixel (sample_mask_tile 255) 0 0) * 128 div 255"
    by (simp add: sample_mask_tile_def get_pixel_def sample_frame_def dst_offset_def
        mask_pixel_def)
  have la: "list_all (\<lambda>t. \<not> (img_dst_x t \<le> img_dst_x (sample_mask_tile 255) + 0
                        \<and> img_dst_x (sample_mask_tile 255) + 0 < img_dst_x t + img_w t
                        \<and> img_dst_y t \<le> img_dst_y (sample_mask_tile 255) + 0
                        \<and> img_dst_y (sample_mask_tile 255) + 0 < img_dst_y t + img_h t))
        [(sample_mask_tile 255)\<lparr>img_dst_x := 0\<rparr>]"
    by (simp add: sample_mask_tile_def)
  from DrawSubtitles_mask_tiles [OF h1 h2 refl h4 h5 h6, THEN conjunct1]
  obtain frame_i frame_i' where
    fi: "blend_tiles blend_mask_tile [sample_mask_tile 100] sample_frame = Some frame_i"
    and fi': "blend_mask_tile (sample_mask_tile 255) frame_i = Some frame_i'"
    and px: "\<forall>x y db dg dr da b' g' r' a' opacity r g b k.
            x < img_w (sample_mask_tile 255) \<and> y < img_h (sample_mask_tile 255)
            \<and> get_pixel frame_i (img_dst_x (sample_mask_tile 255) + x) (img_dst_y (sample_mask_tile 255) + y) = (db, dg, dr, da)
            \<and> get_pixel frame_i' (img_dst_x (sample_mask_tile 255) + x) (img_dst_y (sample_mask_tile 255) + y) = (b', g', r', a')
            \<and> opacity = 255 - unat (img_color (sample_mask_tile 255)) mod 256
            \<and> r = unat (img_color (sample_mask_tile 255)) div 2 ^ 24
            \<and> g = unat (img_color (sample_mask_tile 255)) div 2 ^ 16 mod 256
            \<and> b = unat (img_color (sample_mask_tile 255)) div 2 ^ 8 mod 256
            \<and> k = unat (mask_pixel (sample_mask_tile 255) x y) * opacity div 255
          \<longrightarrow> unat b' = (k * b + (255 - k) * unat db) div 255
              \<and> unat g' = (k * g + (255 - k) * unat dg) div 255
              \<and> unat r' = (k * r + (255 - k) * unat dr) div 255
              \<and> a' = 0
              \<and> (list_all (\<lambda>t. \<not> (img_dst_x t \<le> img_dst_x (sample_mask_tile 255) + x
                                    \<and> img_dst_x (sample_mask_tile 255) + x < img_dst_x t + img_w t
                                    \<and> img_dst_y t \<le> img_dst_y (sample_mask_tile 255) + y
                                    \<and> img_dst_y (sample_mask_tile 255) + y < img_dst_y t + img_h t)) [(sample_mask_tile 255)\<lparr>img_dst_x := 0\<rparr>]
                   \<longrightarrow> get_pixel (sample_frame\<lparr>frame_data := [1, 1, 1, 1, 2, 2, 2, 2, 16, 11, 6, 0, 19, 13, 8, 0]\<rparr>) (img_dst_x (sample_mask_tile 255) + x) (img_dst_y (sample_mask_tile 255) + y)
                         = (b', g', r', a'))"
    by (elim exE conjE)
  from fi e1 have f1: "frame_i = (sample_frame\<lparr>frame_data := [1, 1, 1, 1, 2, 2, 2, 2, 3, 3, 3, 3, 9, 7, 6, 0]\<rparr>)"
    by simp
  from fi' e2 have f2: "frame_i' = (sample_frame\<lparr>frame_data := [1, 1, 1, 1, 2, 2, 2, 2, 3, 3, 3, 3, 19, 13, 8, 0]\<rparr>)"
    by (simp add: f1)
  note vals = px [unfolded f1 f2, rule_format, OF prem]
  have bl: "unat (19 :: byte) = (128 * 30 + (255 - 128) * unat (9 :: byte)) div 255"
    by (rule vals [THEN conjunct1])
  have fin: "get_pixel (sample_frame\<lparr>frame_data := [1, 1, 1, 1, 2, 2, 2, 2, 16, 11, 6, 0, 19, 13, 8, 0]\<rparr>)
        (img_dst_x (sample_mask_tile 255) + 0) (img_dst_y (sample_mask_tile 255) + 0) = (19, 13, 8, 0)"
    by (rule vals [THEN conjunct2, THEN conjunct2, THEN conjunct2, THEN conjunct2, THEN mp, OF la])
  show ?thesis
    by (intro conjI h1 h2 h4 h5 h6 e1 e2 prem [THEN conjunct1]
        prem [THEN conjunct2, THEN conjunct1]
        prem [THEN conjunct2, THEN conjunct2, THEN conjunct1]
        prem [THEN conjunct2, THEN conjunct2, THEN conjunct2, THEN conjunct1]
        prem [THEN conjunct2, THEN conjunct2, THEN conjunct2, THEN conjunct2, THEN conjunct1]
        prem [THEN conjunct2, THEN conjunct2, THEN conjunct2, THEN conjunct2, THEN conjunct2,
              THEN conjunct1]
        prem [THEN conjunct2, THEN conjunct2, THEN conjunct2, THEN conjunct2, THEN conjunct2,
              THEN conjunct2, THEN conjunct1]
        prem [THEN conjunct2, THEN conjunct2, THEN conjunct2, THEN conjunct2, THEN conjunct2,
              THEN conjunct2, THEN conjunct2]
        la bl fin)
qed


section \<open>Loading a script\<close>

text \<open>
  Claim C8. \<^verbatim>\<open>LoadSubtitles\<close> throws exactly when the engine returns no track for the
  buffer. The track loaded before, if any, is handed to \<^verbatim>\<open>ass_free_track\<close> once. On success
  the provider holds the new track, the paths extracted from the buffer and a dirty flag,
  all three from the new script. On failure it holds no track; the path list and the
  dirty flag are untouched, and a draw on that provider returns the frame as it is
  without looking at them. So after the call the script is either the new one as a whole
  or none.
\<close>

theorem LoadSubtitles_outcome:
  "((\<exists>e. fst (LoadSubtitles api data prov) = Inl e) \<longleftrightarrow> ass_read_memory api data = None)
   \<and> freed_tracks (snd (LoadSubtitles api data prov))
       = freed_tracks prov @ (case ass_track prov of Some old \<Rightarrow> [old] | None \<Rightarrow> [])
   \<and> (ass_read_memory api data = Some track \<longrightarrow>
        fst (LoadSubtitles api data prov) = Inr ()
        \<and> ass_track (snd (LoadSubtitles api data prov)) = Some track
        \<and> tag_image_paths (snd (LoadSubtitles api data prov)) = collect_img_paths data
        \<and> tag_images_dirty (snd (LoadSubtitles api data prov)))
   \<and> (ass_read_memory api data = None \<longrightarrow>
        fst (LoadSubtitles api data prov) = Inl (InternalError ''libassmod failed to load subtitles.'')
        \<and> ass_track (snd (LoadSubtitles api data prov)) = None
        \<and> tag_image_paths (snd (LoadSubtitles api data prov)) = tag_image_paths prov
        \<and> tag_images_dirty (snd (LoadSubtitles api data prov)) = tag_images_dirty prov
        \<and> DrawSubtitles env api' (snd (LoadSubtitles api data prov)) frame time_ms
            = (snd (LoadSubtitles api data prov), Some frame))
   \<and> attachment_tag_images (snd (LoadSubtitles api data prov)) = attachment_tag_images prov
   \<and> file_tag_image_cache (snd (LoadSubtitles api data prov)) = file_tag_image_cache prov"
proof (cases "ass_read_memory api data")
  case None
  then show ?thesis
    by (cases "ass_track prov") (simp_all add: LoadSubtitles_def DrawSubtitles_def)
next
  case (Some t)
  then show ?thesis
    by (cases "ass_track prov") (simp_all add: LoadSubtitles_def)
qed


text \<open>
  A use of the theorem with the sample engine: a buffer that parses replaces track 1,
  the empty buffer is rejected and leaves the provider without a track.
\<close>

theorem LoadSubtitles_outcome_witness:
  "ass_read_memory sample_api ''Dialogue: x'' = Some 11
   \<and> fst (LoadSubtitles sample_api ''Dialogue: x'' sample_provider) = Inr ()
   \<and> ass_track (snd (LoadSubtitles sample_api ''Dialogue: x'' sample_provider)) = Some 11
   \<and> tag_images_dirty (snd (LoadSubtitles sample_api ''Dialogue: x'' sample_provider))
   \<and> ass_read_memory sample_api [] = None
   \<and> fst (LoadSubtitles sample_api [] sample_provider)
       = Inl (InternalError ''libassmod failed to load subtitles.'')
   \<and> ass_track (snd (LoadSubtitles sample_api [] sample_provider)) = None
   \<and> tag_image_paths (snd (LoadSubtitles sample_api [] sample_provider))
       = tag_image_paths sample_provider"
proof -
  have ok: "ass_read_memory sample_api ''Dialogue: x'' = Some 11"
    by (simp add: sample_api_def)
  have bad: "ass_read_memory sample_api [] = None"
    by (simp add: sample_api_def)
  note success = LoadSubtitles_outcome
      [of sample_api "''Dialogue: x''" sample_provider 11 sample_env sample_api sample_frame 0,
       THEN conjunct2, THEN conjunct2, THEN conjunct1, THEN mp, OF ok]
  note failure = LoadSubtitles_outcome
      [of sample_api "[]" sample_provider 11 sample_env sample_api sample_frame 0,
       THEN conjunct2, THEN conjunct2, THEN conjunct2, THEN conjunct1, THEN mp, OF bad]
  show ?thesis
    using ok bad success failure by blast
qed

section \<open>The memo of decoded files\<close>

lemma lookup_file_image_hit:
  assumes "map_of (file_tag_image_cache prov) path = Some img"
  shows "lookup_file_image env path prov = (Some img, prov)"
  using assms by (simp add: lookup_file_image_def)

lemma lookup_file_image_miss:
  assumes "map_of (file_tag_image_cache prov) path = None"
  shows "lookup_file_image env path prov =
     (case decode_file_image env path (tag_image_script_dir prov) TagImage_init of
        Some (file_image, resolved_file_path) \<Rightarrow>
          (Some (file_image\<lparr>key := (if resolved_file_path = [] then path else resolved_file_path)\<rparr>),
           prov\<lparr>file_tag_image_cache := file_tag_image_cache prov
                   @ [(path, file_image\<lparr>key := (if resolved_file_path = [] then path
                                                    else resolved_file_path)\<rparr>)]\<rparr>)
      | None \<Rightarrow> (None, prov))"
  using assms by (simp add: lookup_file_image_def Let_def split: option.splits prod.splits)

lemma lookup_file_image_memo:
  assumes "lookup_file_image env path prov = (Some img, prov')"
  shows "map_of (file_tag_image_cache prov') path = Some img"
proof (cases "map_of (file_tag_image_cache prov) path")
  case (Some cached)
  with assms show ?thesis
    by (simp add: lookup_file_image_def)
next
  case None
  show ?thesis
  proof (cases "decode_file_image env path (tag_image_script_dir prov) TagImage_init")
    case miss: None
    with assms None show ?thesis
      by (simp add: lookup_file_image_miss)
  next
    case (Some decoded)
    obtain file_image resolved where "decoded = (file_image, resolved)"
      by (cases decoded) auto
    with assms None Some show ?thesis
      by (auto simp: lookup_file_image_miss map_of_append map_add_def)
  qed
qed

lemma lookup_file_image_dir:
  assumes "lookup_file_image env path prov = (res, prov')"
  shows "tag_image_script_dir prov' = tag_image_script_dir prov"
  using assms
  by (auto simp: lookup_file_image_def Let_def split: option.splits prod.splits)

lemma PrepareSubtitles_cache:
  "file_tag_image_cache (PrepareSubtitles env subs prov) =
     (if script_dir_of env subs \<noteq> tag_image_script_dir prov then []
      else file_tag_image_cache prov)"
  by (simp add: PrepareSubtitles_def Let_def)

lemma PrepareSubtitles_dir:
  "tag_image_script_dir (PrepareSubtitles env subs prov) = script_dir_of env subs"
  by (simp add: PrepareSubtitles_def Let_def)

text \<open>
  Claim C9. When the file lookup of a path has produced an image, it has stored it in the
  memo: the same lookup on the resulting provider returns the same image and leaves the
  provider as it is, whatever the file system has become in the meantime (the lookup does
  not consult it). Preparing a script with the same base directory keeps the memo.
  Preparing a script with another base directory empties the memo, and the next lookup
  is again the decoding of the file under the new directory.
\<close>

theorem lookup_file_image_memoized:
  assumes "lookup_file_image env path prov = (Some img, prov')"
  shows "lookup_file_image env' path prov' = (Some img, prov')
     \<and> (script_dir_of env2 subs = tag_image_script_dir prov \<longrightarrow>
          lookup_file_image env' path (PrepareSubtitles env2 subs prov')
            = (Some img, PrepareSubtitles env2 subs prov'))
     \<and> (script_dir_of env2 subs \<noteq> tag_image_script_dir prov \<longrightarrow>
          file_tag_image_cache (PrepareSubtitles env2 subs prov') = []
          \<and> lookup_file_image env' path (PrepareSubtitles env2 subs prov')
              = (case decode_file_image env' path (script_dir_of env2 subs) TagImage_init of
                   Some (file_image, resolved_file_path) \<Rightarrow>
                     (Some (file_image\<lparr>key := (if resolved_file_path = [] then path
                                                   else resolved_file_path)\<rparr>),
                      (PrepareSubtitles env2 subs prov')
                        \<lparr>file_tag_image_cache :=
                           [(path, file_image\<lparr>key := (if resolved_file_path = [] then path
                                                          else resolved_file_path)\<rparr>)]\<rparr>)
                 | None \<Rightarrow> (None, PrepareSubtitles env2 subs prov')))"
proof (intro conjI impI)
  note memo = lookup_file_image_memo [OF assms]
  note dir = lookup_file_image_dir [OF assms]
  show "lookup_file_image env' path prov' = (Some img, prov')"
    using memo by (rule lookup_file_image_hit)
  {
    assume "script_dir_of env2 subs = tag_image_script_dir prov"
    then have "map_of (file_tag_image_cache (PrepareSubtitles env2 subs prov')) path = Some img"
      using memo dir by (simp add: PrepareSubtitles_cache)
    then show "lookup_file_image env' path (PrepareSubtitles env2 subs prov')
                 = (Some img, PrepareSubtitles env2 subs prov')"
      by (rule lookup_file_image_hit)
  }
  {
    assume other: "script_dir_of env2 subs \<noteq> tag_image_script_dir prov"
    then show empty: "file_tag_image_cache (PrepareSubtitles env2 subs prov') = []"
      using dir by (simp add: PrepareSubtitles_cache)
    then have "map_of (file_tag_image_cache (PrepareSubtitles env2 subs prov')) path = None"
      by simp
    from lookup_file_image_miss [OF this, of env']
    show "lookup_file_image env' path (PrepareSubtitles env2 subs prov')
              = (case decode_file_image env' path (script_dir_of env2 subs) TagImage_init of
                   Some (file_image, resolved_file_path) \<Rightarrow>
                     (Some (file_image\<lparr>key := (if resolved_file_path = [] then path
                                                   else resolved_file_path)\<rparr>),
                      (PrepareSubtitles env2 subs prov')
                        \<lparr>file_tag_image_cache :=
                           [(path, file_image\<lparr>key := (if resolved_file_path = [] then path
                                                          else resolved_file_path)\<rparr>)]\<rparr>)
                 | None \<Rightarrow> (None, PrepareSubtitles env2 subs prov'))"
      by (simp add: empty PrepareSubtitles_dir split: option.splits prod.splits)
  }
qed


text \<open>
  A use of the theorem: \<^verbatim>\<open>pic.png\<close> is decoded from the sample file system once; after the
  file is gone the lookup still returns the memoized image; preparing a script in
  \<^verbatim>\<open>/other\<close> empties the memo.
\<close>

theorem lookup_file_image_memoized_witness:
  "lookup_file_image sample_env ''pic.png'' sample_provider
     = (Some sample_file_image,
        sample_provider\<lparr>file_tag_image_cache := [(''pic.png'', sample_file_image)]\<rparr>)
   \<and> lookup_file_image sample_env_no_files ''pic.png''
        (sample_provider\<lparr>file_tag_image_cache := [(''pic.png'', sample_file_image)]\<rparr>)
     = (Some sample_file_image,
        sample_provider\<lparr>file_tag_image_cache := [(''pic.png'', sample_file_image)]\<rparr>)
   \<and> script_dir_of sample_env \<lparr>Filename = ''/other/a.ass'', Attachments = []\<rparr>
        \<noteq> tag_image_script_dir sample_provider
   \<and> file_tag_image_cache
        (PrepareSubtitles sample_env \<lparr>Filename = ''/other/a.ass'', Attachments = []\<rparr>
           (sample_provider\<lparr>file_tag_image_cache := [(''pic.png'', sample_file_image)]\<rparr>)) = []"
proof -
  have first: "lookup_file_image sample_env ''pic.png'' sample_provider
     = (Some sample_file_image,
        sample_provider\<lparr>file_tag_image_cache := [(''pic.png'', sample_file_image)]\<rparr>)"
    by code_simp
  have moved: "script_dir_of sample_env \<lparr>Filename = ''/other/a.ass'', Attachments = []\<rparr>
        \<noteq> tag_image_script_dir sample_provider"
    by code_simp
  note all = lookup_file_image_memoized [OF first, of sample_env_no_files sample_env
      "\<lparr>Filename = ''/other/a.ass'', Attachments = []\<rparr>"]
  have again: "lookup_file_image sample_env_no_files ''pic.png''
        (sample_provider\<lparr>file_tag_image_cache := [(''pic.png'', sample_file_image)]\<rparr>)
     = (Some sample_file_image,
        sample_provider\<lparr>file_tag_image_cache := [(''pic.png'', sample_file_image)]\<rparr>)"
    using all by (rule conjunct1)
  have cleared: "file_tag_image_cache
        (PrepareSubtitles sample_env \<lparr>Filename = ''/other/a.ass'', Attachments = []\<rparr>
           (sample_provider\<lparr>file_tag_image_cache := [(''pic.png'', sample_file_image)]\<rparr>)) = []"
    using all [THEN conjunct2, THEN conjunct2] moved by blast
  show ?thesis
    using first again moved cleared by blast
qed

section \<open>Formats, base names and the attachment fallback\<close>

lemma of_char_tolower:
  "of_char (img_ascii_tolower c) = (if (65::nat) \<le> of_char c \<and> of_char c \<le> (90::nat)
                                     then of_char c + 32 else (of_char c :: nat))"
  by (simp add: img_ascii_tolower_def)

lemma char_eq_code: "c = d \<longleftrightarrow> (of_char c :: nat) = of_char d"
  by (metis of_char_eq_iff)

lemma tolower_idem: "img_ascii_tolower (img_ascii_tolower c) = img_ascii_tolower c"
  unfolding char_eq_code [of "img_ascii_tolower (img_ascii_tolower c)"] of_char_tolower
  by simp

lemma to_lower_copy_idem: "to_lower_copy (to_lower_copy s) = to_lower_copy s"
  by (simp add: to_lower_copy_def tolower_idem)

lemma is_separator_tolower: "is_separator (img_ascii_tolower c) \<longleftrightarrow> is_separator c"
proof -
  have "(of_char (img_ascii_tolower c) :: nat) = 47 \<longleftrightarrow> (of_char c :: nat) = 47"
    "(of_char (img_ascii_tolower c) :: nat) = 92 \<longleftrightarrow> (of_char c :: nat) = 92"
    unfolding of_char_tolower by auto
  then show ?thesis
    by (simp add: is_separator_def backslash_def char_eq_code)
qed

lemma tolower_not_quote:
  assumes "img_ascii_tolower c = CHR ''g'' \<or> img_ascii_tolower c = CHR ''p''"
  shows "c \<noteq> dquote \<and> c \<noteq> squote"
  using assms by (auto simp: img_ascii_tolower_def dquote_def squote_def)

lemma path_basename_alt:
  "path_basename path = rev (takeWhile (\<lambda>c. \<not> is_separator c) (rev path))"
proof (cases "find is_separator (rev path)")
  case None
  then have tw: "takeWhile (\<lambda>c. \<not> is_separator c) (rev path) = rev path"
    by (auto simp: find_None_iff takeWhile_eq_all_conv)
  show ?thesis
    unfolding tw by (simp add: path_basename_def None)
next
  case (Some a)
  then show ?thesis
    by (simp add: path_basename_def)
qed

lemma path_basename_to_lower:
  "path_basename (to_lower_copy path) = to_lower_copy (path_basename path)"
proof -
  have "(\<lambda>c. \<not> is_separator c) \<circ> img_ascii_tolower = (\<lambda>c. \<not> is_separator c)"
    by (auto simp: is_separator_tolower)
  then show ?thesis
    by (simp add: path_basename_alt to_lower_copy_def rev_map takeWhile_map)
qed

lemma ends_with_iff: "ends_with s suf \<longleftrightarrow> (\<exists>pre. s = pre @ suf)"
proof
  assume "ends_with s suf"
  then have "s = take (length s - length suf) s @ suf"
    by (metis append_take_drop_id ends_with_def)
  then show "\<exists>pre. s = pre @ suf" ..
next
  assume "\<exists>pre. s = pre @ suf"
  then show "ends_with s suf"
    by (auto simp: ends_with_def)
qed

lemma ends_with_basename:
  assumes "list_all (\<lambda>c. \<not> is_separator c) suf"
  shows "ends_with (path_basename s) suf \<longleftrightarrow> ends_with s suf"
proof
  assume "ends_with (path_basename s) suf"
  then obtain x where x: "path_basename s = x @ suf"
    by (auto simp: ends_with_iff)
  have "s = rev (dropWhile (\<lambda>c. \<not> is_separator c) (rev s)) @ path_basename s"
    unfolding path_basename_alt by (metis rev_append rev_rev_ident takeWhile_dropWhile_id)
  then have "s = (rev (dropWhile (\<lambda>c. \<not> is_separator c) (rev s)) @ x) @ suf"
    using x by simp
  then show "ends_with s suf"
    unfolding ends_with_iff ..
next
  assume "ends_with s suf"
  then obtain pre where s: "s = pre @ suf"
    by (auto simp: ends_with_iff)
  have "takeWhile (\<lambda>c. \<not> is_separator c) (rev suf @ rev pre)
          = rev suf @ takeWhile (\<lambda>c. \<not> is_separator c) (rev pre)"
    using assms by (intro takeWhile_append2) (auto simp: list_all_iff)
  then have "path_basename s = rev (takeWhile (\<lambda>c. \<not> is_separator c) (rev pre)) @ suf"
    by (simp add: path_basename_alt s)
  then show "ends_with (path_basename s) suf"
    unfolding ends_with_iff ..
qed

lemma extension_no_separator:
  "list_all (\<lambda>c. \<not> is_separator c) ''.png''" "list_all (\<lambda>c. \<not> is_separator c) ''.jpg''"
  "list_all (\<lambda>c. \<not> is_separator c) ''.jpeg''" "list_all (\<lambda>c. \<not> is_separator c) ''.webp''"
  by (simp_all add: is_separator_def backslash_def)

lemma parse_tag_image_format_to_lower:
  "parse_tag_image_format (to_lower_copy path) = parse_tag_image_format path"
  by (simp add: parse_tag_image_format_def to_lower_copy_idem)

lemma parse_tag_image_format_basename:
  "parse_tag_image_format (path_basename path) = parse_tag_image_format path"
  unfolding parse_tag_image_format_def path_basename_to_lower [symmetric] Let_def
    ends_with_basename [OF extension_no_separator(1)]
    ends_with_basename [OF extension_no_separator(2)]
    ends_with_basename [OF extension_no_separator(3)]
    ends_with_basename [OF extension_no_separator(4)]
  by (rule refl)

text \<open>The declared format of a path depends on its lower-cased base name only.\<close>

lemma parse_tag_image_format_basename_lower:
  "parse_tag_image_format (to_lower_copy (path_basename path)) = parse_tag_image_format path"
  by (simp add: parse_tag_image_format_to_lower parse_tag_image_format_basename)

lemma decoded_from_key_format:
  assumes "decoded_from_key img" "basename_lower img = to_lower_copy (path_basename path)"
    and "parse_tag_image_format path = Some fmt"
  shows "format img = fmt"
proof -
  have "Some (format img) = parse_tag_image_format (key img)"
    using assms(1) by (simp add: decoded_from_key_def)
  also have "\<dots> = parse_tag_image_format (to_lower_copy (path_basename (key img)))"
    by (simp add: parse_tag_image_format_basename_lower)
  also have "\<dots> = parse_tag_image_format (to_lower_copy (path_basename path))"
    using assms(1,2) by (simp add: decoded_from_key_def)
  also have "\<dots> = Some fmt"
    using assms(3) by (simp add: parse_tag_image_format_basename_lower)
  finally show ?thesis
    by simp
qed

lemma decode_image_to_rgba_keeps:
  assumes "decode_image_to_rgba wximg out = Some out'"
  shows "format out' = format out"
  using assms by (auto simp: decode_image_to_rgba_def split: if_splits option.splits)

lemma decode_attachment_image_decoded_from_key:
  assumes "decode_attachment_image env entry out0 = Some img"
  shows "decoded_from_key img"
  using assms
  by (auto simp: decode_attachment_image_def decoded_from_key_def Let_def
      dest!: decode_image_to_rgba_keeps split: if_splits option.splits)

lemma PrepareSubtitles_attachments_decoded:
  "list_all decoded_from_key (attachment_tag_images (PrepareSubtitles env subs prov))"
  by (auto simp: PrepareSubtitles_def Let_def list_all_iff List.map_filter_def
      dest: decode_attachment_image_decoded_from_key split: if_splits)

lemma attachment_by_name_lookup:
  "map_of (fst (fold (register_attachment api) atts (m, reg))) b =
     (case map_of m b of
        Some a \<Rightarrow> Some a
      | None \<Rightarrow> find (\<lambda>a. basename_lower a = b) atts)"
proof (induction atts arbitrary: m reg)
  case Nil
  show ?case by (simp split: option.splits)
next
  case (Cons a atts)
  define m' where "m' = (case map_of m (basename_lower a) of
                           None \<Rightarrow> m @ [(basename_lower a, a)] | Some _ \<Rightarrow> m)"
  have step: "fold (register_attachment api) (a # atts) (m, reg)
                = fold (register_attachment api) atts
                    (m', register_path_variants api (key a) a reg)"
    by (simp add: register_attachment_def m'_def)
  have look: "map_of m' b = (case map_of m b of
                               Some x \<Rightarrow> Some x
                             | None \<Rightarrow> if basename_lower a = b then Some a else None)"
    by (auto simp: m'_def map_of_append map_add_def split: option.splits)
  show ?case
    unfolding step Cons.IH look by (auto split: option.splits)
qed

lemma parse_tag_image_format_last:
  assumes "parse_tag_image_format path = Some fmt"
  shows "path \<noteq> [] \<and> last path \<noteq> dquote \<and> last path \<noteq> squote"
proof -
  from assms obtain suf where suf: "ends_with (to_lower_copy path) suf"
    and sufs: "suf = ''.png'' \<or> suf = ''.jpg'' \<or> suf = ''.jpeg'' \<or> suf = ''.webp''"
    by (auto simp: parse_tag_image_format_def Let_def split: if_splits)
  from suf obtain pre where pre: "to_lower_copy path = pre @ suf"
    by (auto simp: ends_with_iff)
  have ne: "path \<noteq> []"
    using pre sufs by (auto simp: to_lower_copy_def)
  have "last (to_lower_copy path) = last suf"
    using pre sufs by auto
  then have "last (to_lower_copy path) = CHR ''g'' \<or> last (to_lower_copy path) = CHR ''p''"
    using sufs by auto
  moreover have "last (to_lower_copy path) = img_ascii_tolower (last path)"
    using ne by (simp add: to_lower_copy_def last_map)
  ultimately show ?thesis
    using ne tolower_not_quote [of "last path"] by simp
qed

lemma strip_parsed_path:
  assumes "path = strip_matching_quotes raw_path" "parse_tag_image_format path = Some fmt"
  shows "strip_matching_quotes path = path" "path \<noteq> []"
proof -
  have l: "path \<noteq> [] \<and> last path \<noteq> dquote \<and> last path \<noteq> squote"
    using assms(2) by (rule parse_tag_image_format_last)
  then show "path \<noteq> []"
    by simp
  have "\<not> quoted path"
    using l by (auto simp: quoted_def)
  moreover have "trim_copy path = path"
    unfolding assms(1) by (rule strip_matching_quotes_trimmed)
  ultimately show "strip_matching_quotes path = path"
    by (intro strip_unquoted_fixed)
qed

lemma register_key_grows:
  "set (tag_images reg) \<subseteq> set (tag_images (register_key api k img reg))"
  "registered_paths reg \<subseteq> registered_paths (register_key api k img reg)"
  by (auto simp: register_key_def)

lemma register_path_variants_grows:
  "set (tag_images reg) \<subseteq> set (tag_images (register_path_variants api k img reg))"
  "registered_paths reg \<subseteq> registered_paths (register_path_variants api k img reg)"
  using register_key_grows [of reg api "strip_matching_quotes k" img]
    register_key_grows [of "register_key api (strip_matching_quotes k) img reg" api
      "add_double_quotes (strip_matching_quotes k)" img]
  by (auto simp: register_path_variants_def Let_def)

lemma register_key_new:
  assumes "k \<noteq> []" "k \<notin> registered_paths reg" "0 \<le> ass_set_tag_image_rgba api k (payload img)"
  shows "(k, payload img) \<in> set (tag_images (register_key api k img reg))"
    and "k \<in> registered_paths (register_key api k img reg)"
  using assms by (simp_all add: register_key_def)

lemma register_path_variants_clean:
  assumes "strip_matching_quotes k = k" "k \<noteq> []"
  shows "register_path_variants api k img reg
           = register_key api (add_double_quotes k) img (register_key api k img reg)"
  using assms by (simp add: register_path_variants_def)

lemma register_referenced_path_no_file:
  assumes "path = strip_matching_quotes raw_path" "parse_tag_image_format path = Some fmt"
    and "lookup_file_image env path prov = (None, prov')"
  shows "register_referenced_path env api attachment_by_name raw_path (prov, reg)
           = (prov', attachment_fallback api attachment_by_name path fmt
                       (path_is_absolute env path) reg)"
  using assms strip_parsed_path(2) [OF assms(1,2)]
  by (simp add: register_referenced_path_def Let_def)

lemma lookup_file_image_None:
  assumes "lookup_file_image env path prov = (None, prov')"
  shows "prov' = prov"
  using assms
  by (auto simp: lookup_file_image_def Let_def split: option.splits prod.splits)

text \<open>
  Claim C5. Take the attachment images that \<^verbatim>\<open>PrepareSubtitles\<close> has decoded, a referenced
  path with a recognised extension, and suppose its file lookup yields nothing (no memo
  entry and no file that decodes). If the path is not absolute and some attachment has the path's
  lower-case base name, the first such attachment has the format the path declares, and
  the loop body registers it under the path, under the double-quoted path and under the
  attachment's own key; when the path was not registered before and the engine accepts
  it, the renderer's table then holds that attachment's pixels for the path. Without
  such an attachment nothing is registered. If the path is absolute, nothing is
  registered, whatever the attachments are. With the attachment \<^verbatim>\<open>Foo.PNG\<close> and no files,
  a reference to \<^verbatim>\<open>foo.png\<close> gets the attachment and a reference to
  \<^verbatim>\<open>/abs/other/foo.png\<close> gets nothing.
\<close>

theorem attachment_fallback_relative_only:
  assumes "atts = attachment_tag_images (PrepareSubtitles env0 subs prov0)"
    and "attachment_by_name = fst (fold (register_attachment api) atts ([], reg0))"
    and "path = strip_matching_quotes raw_path"
    and "parse_tag_image_format path = Some fmt"
    and "lookup_file_image env path prov = (None, prov')"
  shows "(\<not> path_is_absolute env path
          \<and> find (\<lambda>a. basename_lower a = to_lower_copy (path_basename path)) atts = Some img
        \<longrightarrow> basename_lower img = to_lower_copy (path_basename path) \<and> format img = fmt
            \<and> register_referenced_path env api attachment_by_name raw_path (prov, reg)
                = (prov, register_path_variants api (key img) img
                           (register_key api (add_double_quotes path) img
                              (register_key api path img reg)))
            \<and> (path \<notin> registered_paths reg \<and> 0 \<le> ass_set_tag_image_rgba api path (payload img)
               \<longrightarrow> (path, payload img)
                     \<in> set (tag_images (snd (register_referenced_path env api attachment_by_name
                                                raw_path (prov, reg))))))
     \<and> (\<not> path_is_absolute env path
          \<and> find (\<lambda>a. basename_lower a = to_lower_copy (path_basename path)) atts = None
        \<longrightarrow> register_referenced_path env api attachment_by_name raw_path (prov, reg) = (prov, reg))
     \<and> (path_is_absolute env path
        \<longrightarrow> register_referenced_path env api attachment_by_name raw_path (prov, reg) = (prov, reg))
     \<and> map_of (renderer_tag_images
                 (RegisterTagImages sample_env_no_files sample_api
                    (sample_provider\<lparr>attachment_tag_images := [sample_attachment],
                                      tag_image_paths := [''foo.png''],
                                      tag_images_dirty := True\<rparr>))) ''foo.png''
         = Some (payload sample_attachment)
     \<and> map fst (renderer_tag_images
                 (RegisterTagImages sample_env_no_files sample_api
                    (sample_provider\<lparr>attachment_tag_images := [sample_attachment],
                                      tag_image_paths := [''/abs/other/foo.png''],
                                      tag_images_dirty := True\<rparr>)))
         = [''Foo.PNG'', add_double_quotes ''Foo.PNG'']"
proof -
  have same: "prov' = prov"
    using assms(5) by (rule lookup_file_image_None)
  have body: "register_referenced_path env api attachment_by_name raw_path (prov, reg)
                = (prov, attachment_fallback api attachment_by_name path fmt
                           (path_is_absolute env path) reg)"
    using register_referenced_path_no_file [OF assms(3,4,5)] same by simp
  have table: "map_of attachment_by_name (to_lower_copy (path_basename path))
                 = find (\<lambda>a. basename_lower a = to_lower_copy (path_basename path)) atts"
    unfolding assms(2) attachment_by_name_lookup by simp
  note clean = strip_parsed_path [OF assms(3,4)]
  have absolute: "path_is_absolute env path
        \<longrightarrow> register_referenced_path env api attachment_by_name raw_path (prov, reg) = (prov, reg)"
    by (simp add: body attachment_fallback_def)
  have none: "\<not> path_is_absolute env path
          \<and> find (\<lambda>a. basename_lower a = to_lower_copy (path_basename path)) atts = None
        \<longrightarrow> register_referenced_path env api attachment_by_name raw_path (prov, reg) = (prov, reg)"
    by (simp add: body attachment_fallback_def table)
  have some: "basename_lower img = to_lower_copy (path_basename path) \<and> format img = fmt
            \<and> register_referenced_path env api attachment_by_name raw_path (prov, reg)
                = (prov, register_path_variants api (key img) img
                           (register_key api (add_double_quotes path) img
                              (register_key api path img reg)))
            \<and> (path \<notin> registered_paths reg \<and> 0 \<le> ass_set_tag_image_rgba api path (payload img)
               \<longrightarrow> (path, payload img)
                     \<in> set (tag_images (snd (register_referenced_path env api attachment_by_name
                                                raw_path (prov, reg)))))"
    if rel: "\<not> path_is_absolute env path"
      and found: "find (\<lambda>a. basename_lower a = to_lower_copy (path_basename path)) atts = Some img"
  proof -
    have mem: "img \<in> set atts" and bn: "basename_lower img = to_lower_copy (path_basename path)"
      using found by (auto simp: find_Some_iff)
    have "list_all decoded_from_key atts"
      unfolding assms(1) by (rule PrepareSubtitles_attachments_decoded)
    then have "decoded_from_key img"
      using mem by (simp add: list_all_iff)
    then have fmt: "format img = fmt"
      using bn assms(4) by (rule decoded_from_key_format)
    have res: "register_referenced_path env api attachment_by_name raw_path (prov, reg)
                = (prov, register_path_variants api (key img) img
                           (register_key api (add_double_quotes path) img
                              (register_key api path img reg)))"
      using rel found fmt
      by (simp add: body attachment_fallback_def table register_path_variants_clean [OF clean])
    have "(path, payload img)
            \<in> set (tag_images (snd (register_referenced_path env api attachment_by_name
                                       raw_path (prov, reg))))"
      if "path \<notin> registered_paths reg \<and> 0 \<le> ass_set_tag_image_rgba api path (payload img)"
    proof -
      have "(path, payload img) \<in> set (tag_images (register_key api path img reg))"
        using clean(2) that by (intro register_key_new) auto
      then have "(path, payload img)
          \<in> set (tag_images (register_key api (add_double_quotes path) img
                                (register_key api path img reg)))"
        using register_key_grows(1) by blast
      then have "(path, payload img)
          \<in> set (tag_images (register_path_variants api (key img) img
                                (register_key api (add_double_quotes path) img
                                   (register_key api path img reg))))"
        using register_path_variants_grows(1) by blast
      then show ?thesis
        by (simp add: res)
    qed
    with bn fmt res show ?thesis
      by blast
  qed
  have ex1: "map_of (renderer_tag_images
                 (RegisterTagImages sample_env_no_files sample_api
                    (sample_provider\<lparr>attachment_tag_images := [sample_attachment],
                                      tag_image_paths := [''foo.png''],
                                      tag_images_dirty := True\<rparr>))) ''foo.png''
         = Some (payload sample_attachment)"
    by code_simp
  have ex2: "map fst (renderer_tag_images
                 (RegisterTagImages sample_env_no_files sample_api
                    (sample_provider\<lparr>attachment_tag_images := [sample_attachment],
                                      tag_image_paths := [''/abs/other/foo.png''],
                                      tag_images_dirty := True\<rparr>)))
         = [''Foo.PNG'', add_double_quotes ''Foo.PNG'']"
    by code_simp
  show ?thesis
    using some absolute none ex1 ex2 by blast
qed


text \<open>
  A use of the theorem: with the attachment \<^verbatim>\<open>Foo.PNG\<close> of the sample script and no
  files, the loop body for \<^verbatim>\<open>foo.png\<close> puts the attachment's pixels into the table
  under \<^verbatim>\<open>foo.png\<close>.
\<close>

theorem attachment_fallback_relative_only_witness:
  "[sample_attachment] = attachment_tag_images (PrepareSubtitles sample_env sample_script
                                                 sample_provider)
   \<and> ''foo.png'' = strip_matching_quotes '' foo.png ''
   \<and> parse_tag_image_format ''foo.png'' = Some ASS_TAG_IMAGE_FORMAT_PNG
   \<and> lookup_file_image sample_env_no_files ''foo.png'' sample_provider = (None, sample_provider)
   \<and> \<not> path_is_absolute sample_env_no_files ''foo.png''
   \<and> find (\<lambda>a. basename_lower a = to_lower_copy (path_basename ''foo.png'')) [sample_attachment]
       = Some sample_attachment
   \<and> ''foo.png'' \<notin> registered_paths \<lparr>registered_paths = {}, tag_images = []\<rparr>
   \<and> 0 \<le> ass_set_tag_image_rgba sample_api ''foo.png'' (payload sample_attachment)
   \<and> (''foo.png'', payload sample_attachment)
       \<in> set (tag_images (snd (register_referenced_path sample_env_no_files sample_api
              (fst (fold (register_attachment sample_api) [sample_attachment]
                      ([], \<lparr>registered_paths = {}, tag_images = []\<rparr>)))
              '' foo.png '' (sample_provider, \<lparr>registered_paths = {}, tag_images = []\<rparr>))))"
proof -
  have h1: "[sample_attachment] = attachment_tag_images (PrepareSubtitles sample_env sample_script
                                                           sample_provider)"
    by code_simp
  have h3: "''foo.png'' = strip_matching_quotes '' foo.png ''"
    by code_simp
  have h4: "parse_tag_image_format ''foo.png'' = Some ASS_TAG_IMAGE_FORMAT_PNG"
    by code_simp
  have h5: "lookup_file_image sample_env_no_files ''foo.png'' sample_provider
              = (None, sample_provider)"
    by code_simp
  have rel: "\<not> path_is_absolute sample_env_no_files ''foo.png''"
    by code_simp
  have found: "find (\<lambda>a. basename_lower a = to_lower_copy (path_basename ''foo.png''))
                 [sample_attachment] = Some sample_attachment"
    by code_simp
  have fresh: "''foo.png'' \<notin> registered_paths \<lparr>registered_paths = {}, tag_images = []\<rparr>"
    by simp
  have accepted: "0 \<le> ass_set_tag_image_rgba sample_api ''foo.png'' (payload sample_attachment)"
    by (simp add: sample_api_def)
  note all = attachment_fallback_relative_only [OF h1 refl h3 h4 h5,
      of sample_attachment sample_api "\<lparr>registered_paths = {}, tag_images = []\<rparr>"
         "\<lparr>registered_paths = {}, tag_images = []\<rparr>"]
  have "(''foo.png'', payload sample_attachment)
       \<in> set (tag_images (snd (register_referenced_path sample_env_no_files sample_api
              (fst (fold (register_attachment sample_api) [sample_attachment]
                      ([], \<lparr>registered_paths = {}, tag_images = []\<rparr>)))
              '' foo.png '' (sample_provider, \<lparr>registered_paths = {}, tag_images = []\<rparr>))))"
    using all rel found fresh accepted by blast
  with h1 h3 h4 h5 rel found fresh accepted show ?thesis
    by blast
qed

end
